theory Spec2Isabelle
  imports Complex_Main "HOL-Library.Sublist"
begin

section \<open>Python values\<close>

text \<open>
  A Python \<open>str\<close> is a sequence of Unicode code points; a code point is a natural number.
  \<open>ascii\<close> turns an ASCII literal into such a sequence.
\<close>

type_synonym pystr = "nat list"

definition ascii :: "string \<Rightarrow> pystr" where
  "ascii s = map of_char s"

text \<open>
  The values that \<open>json.loads\<close> and \<open>request.get_json\<close> produce, and that \<open>jsonify\<close>
  consumes. A \<open>dict\<close> is an association list in insertion order; \<open>map_of\<close> reads it.
  A \<open>float\<close> is a real number: the program only tests floats for truth, and NaN and
  the infinities, which have no real number, are true like every other non-zero float.
\<close>

datatype pyval =
    PNone
  | PBool bool
  | PInt int
  | PFloat real
  | PStr pystr
  | PList "pyval list"
  | PDict "(pystr \<times> pyval) list"

text \<open>The exceptions the handlers can raise and do not catch themselves.\<close>

datatype exn = AttributeError | KeyError | TypeError | ValueError | FormatNotModelled

text \<open>Truth value of a Python object, as \<open>not x\<close>, \<open>x or y\<close> and \<open>if x\<close> test it.\<close>

fun truthy :: "pyval \<Rightarrow> bool" where
  "truthy PNone = False"
| "truthy (PBool b) = b"
| "truthy (PInt i) = (i \<noteq> 0)"
| "truthy (PFloat r) = (r \<noteq> 0)"
| "truthy (PStr s) = (s \<noteq> [])"
| "truthy (PList xs) = (xs \<noteq> [])"
| "truthy (PDict kvs) = (kvs \<noteq> [])"

definition py_or :: "pyval \<Rightarrow> pyval \<Rightarrow> pyval" where
  "py_or a b = (if truthy a then a else b)"

text \<open>\<open>obj.get(key, default)\<close>: only a dict has the method.\<close>

fun py_get :: "pyval \<Rightarrow> pystr \<Rightarrow> pyval \<Rightarrow> exn + pyval" where
  "py_get (PDict kvs) k d = Inr (case map_of kvs k of None \<Rightarrow> d | Some v \<Rightarrow> v)"
| "py_get _ k d = Inl AttributeError"

text \<open>\<open>obj[key]\<close> with a string key.\<close>

fun py_subscript :: "pyval \<Rightarrow> pystr \<Rightarrow> exn + pyval" where
  "py_subscript (PDict kvs) k = (case map_of kvs k of None \<Rightarrow> Inl KeyError | Some v \<Rightarrow> Inr v)"
| "py_subscript _ k = Inl TypeError"

subsection \<open>Strings\<close>

text \<open>The code points for which \<open>str.isspace\<close> holds; \<open>str.strip()\<close> removes them.\<close>

definition is_space :: "nat \<Rightarrow> bool" where
  "is_space c \<longleftrightarrow>
     (9 \<le> c \<and> c \<le> 13) \<or> (28 \<le> c \<and> c \<le> 32) \<or> c = 133 \<or> c = 160 \<or> c = 5760 \<or>
     (8192 \<le> c \<and> c \<le> 8202) \<or> c = 8232 \<or> c = 8233 \<or> c = 8239 \<or> c = 8287 \<or> c = 12288"

definition strip_chars :: "(nat \<Rightarrow> bool) \<Rightarrow> pystr \<Rightarrow> pystr" where
  "strip_chars P s = rev (dropWhile P (rev (dropWhile P s)))"

definition strip :: "pystr \<Rightarrow> pystr" where
  "strip s = strip_chars is_space s"

text \<open>\<open>obj.strip()\<close>: only a str has the method.\<close>

fun py_strip :: "pyval \<Rightarrow> exn + pystr" where
  "py_strip (PStr s) = Inr (strip s)"
| "py_strip _ = Inl AttributeError"

text \<open>The expression \<open>(obj.get(key) or "").strip()\<close>, which every handler starts with.\<close>

definition get_stripped :: "pyval \<Rightarrow> pystr \<Rightarrow> exn + pystr" where
  "get_stripped obj k =
     (case py_get obj k PNone of
        Inl e \<Rightarrow> Inl e
      | Inr v \<Rightarrow> py_strip (py_or v (PStr [])))"

text \<open>
  \<open>str.lower\<close> follows the Unicode case tables, which are not part of the program: the
  functions below take it as the parameter \<open>lower\<close>. \<open>lower_ascii\<close> is \<open>str.lower\<close> on
  ASCII strings.
\<close>

definition lower_ascii :: "pystr \<Rightarrow> pystr" where
  "lower_ascii s = map (\<lambda>c. if 65 \<le> c \<and> c \<le> 90 then c + 32 else c) s"

text \<open>\<open>str(n)\<close> for an int.\<close>

fun digits :: "nat \<Rightarrow> pystr" where
  "digits n = (if n < 10 then [48 + n] else digits (n div 10) @ [48 + n mod 10])"

declare digits.simps [simp del]

definition str_int :: "int \<Rightarrow> pystr" where
  "str_int i = (if i < 0 then 45 # digits (nat (- i)) else digits (nat i))"

section \<open>The task store\<close>

record task =
  task_id :: int
  description :: pystr
  completed :: bool
  created_at :: pystr

text \<open>The two module globals \<open>tasks\<close> and \<open>next_id\<close>.\<close>

record store =
  tasks :: "task list"
  next_id :: int

definition init :: store where
  "init = \<lparr>tasks = [], next_id = 1\<rparr>"

text \<open>A task dict as \<open>jsonify\<close> sees it.\<close>

definition task_json :: "task \<Rightarrow> pyval" where
  "task_json t = PDict
     [(ascii ''id'', PInt (task_id t)),
      (ascii ''description'', PStr (description t)),
      (ascii ''completed'', PBool (completed t)),
      (ascii ''created_at'', PStr (created_at t))]"

text \<open>
  \<open>next((t for t in tasks if ...), None)\<close>: the first task that satisfies the test. The
  result refers to a dict held in the list; the model returns its position.
\<close>

fun first_index :: "('a \<Rightarrow> bool) \<Rightarrow> 'a list \<Rightarrow> nat option" where
  "first_index P [] = None"
| "first_index P (x # xs) =
     (if P x then Some 0 else map_option Suc (first_index P xs))"

definition find_task_by_desc :: "(pystr \<Rightarrow> pystr) \<Rightarrow> task list \<Rightarrow> pystr option \<Rightarrow> nat option" where
  "find_task_by_desc lower ts desc =
     (let d = lower (strip (case desc of None \<Rightarrow> [] | Some x \<Rightarrow> x))
      in first_index (\<lambda>t. lower (strip (description t)) = d) ts)"

section \<open>REST handlers\<close>

text \<open>
  A handler takes the request body as \<open>request.get_json(silent=True)\<close> returns it
  (\<open>None\<close> when there is no JSON body) and the store, and returns the response (a body
  and a status) or the exception it raised, together with the store it leaves.
\<close>

type_synonym response = "pyval \<times> nat"
type_synonym outcome = "(exn + response) \<times> store"

definition body_or_empty :: "pyval option \<Rightarrow> pyval" where
  "body_or_empty body = (case body of None \<Rightarrow> PDict [] | Some j \<Rightarrow> py_or j (PDict []))"

definition error_body :: "string \<Rightarrow> pyval" where
  "error_body msg = PDict [(ascii ''error'', PStr (ascii msg))]"

definition get_tasks :: "store \<Rightarrow> outcome" where
  "get_tasks s = (Inr (PDict [(ascii ''tasks'', PList (map task_json (tasks s)))], 200), s)"

definition create_task :: "pystr \<Rightarrow> pyval option \<Rightarrow> store \<Rightarrow> outcome" where
  "create_task now body s =
     (case get_stripped (body_or_empty body) (ascii ''description'') of
        Inl e \<Rightarrow> (Inl e, s)
      | Inr d \<Rightarrow>
          if d = [] then (Inr (error_body ''description is required'', 400), s)
          else
            let t = \<lparr>task_id = next_id s, description = d, completed = False, created_at = now\<rparr>
            in (Inr (task_json t, 201), s\<lparr>tasks := tasks s @ [t], next_id := next_id s + 1\<rparr>))"

definition complete_task_by_description ::
    "(pystr \<Rightarrow> pystr) \<Rightarrow> pyval option \<Rightarrow> store \<Rightarrow> outcome" where
  "complete_task_by_description lower body s =
     (case get_stripped (body_or_empty body) (ascii ''description'') of
        Inl e \<Rightarrow> (Inl e, s)
      | Inr d \<Rightarrow>
          if d = [] then (Inr (error_body ''description is required'', 400), s)
          else
            (case find_task_by_desc lower (tasks s) (Some d) of
               None \<Rightarrow> (Inr (error_body ''task not found'', 404), s)
             | Some i \<Rightarrow>
                 let t = (tasks s ! i)\<lparr>completed := True\<rparr>
                 in (Inr (task_json t, 200), s\<lparr>tasks := (tasks s)[i := t]\<rparr>)))"

definition delete_task_by_description ::
    "(pystr \<Rightarrow> pystr) \<Rightarrow> pyval option \<Rightarrow> store \<Rightarrow> outcome" where
  "delete_task_by_description lower body s =
     (case get_stripped (body_or_empty body) (ascii ''description'') of
        Inl e \<Rightarrow> (Inl e, s)
      | Inr d \<Rightarrow>
          if d = [] then (Inr (error_body ''description is required'', 400), s)
          else
            (case find_task_by_desc lower (tasks s) (Some d) of
               None \<Rightarrow> (Inr (error_body ''task not found'', 404), s)
             | Some i \<Rightarrow>
                 (Inr (PDict [(ascii ''ok'', PBool True), (ascii ''deleted_description'', PStr d)], 200),
                  s\<lparr>tasks := remove1 (tasks s ! i) (tasks s)\<rparr>)))"

section \<open>The chat brain\<close>

subsection \<open>The router\<close>

text \<open>\<open>s.split("\n", 1)[-1]\<close>: what follows the first newline, or all of \<open>s\<close> without one.\<close>

definition after_newline :: "pystr \<Rightarrow> pystr" where
  "after_newline s = (case dropWhile (\<lambda>c. c \<noteq> 10) s of [] \<Rightarrow> s | _ # r \<Rightarrow> r)"

definition strip_fences :: "pystr \<Rightarrow> pystr" where
  "strip_fences s =
     (if s = [] then s
      else
        let s1 = strip s;
            s2 = (if take 3 s1 = [96, 96, 96]
                  then after_newline (strip_chars (\<lambda>c. c = 96) s1)
                  else s1)
        in strip s2)"

text \<open>
  What the chat-completion request does: it raises (in the SDK, the transport, or while
  the reply is read out of the response object), or it yields the message content,
  which may be \<open>None\<close>.
\<close>

datatype llm_call = Raises | Returns "pystr option"

definition tool_names :: "pystr list" where
  "tool_names = [ascii ''addTask'', ascii ''completeTask'', ascii ''deleteTask'', ascii ''viewTasks'']"

text \<open>\<open>fn in {"addTask", ...}\<close>: hashing a list or a dict raises.\<close>

fun in_tool_names :: "pyval \<Rightarrow> exn + bool" where
  "in_tool_names (PStr f) = Inr (f \<in> set tool_names)"
| "in_tool_names (PList _) = Inl TypeError"
| "in_tool_names (PDict _) = Inl TypeError"
| "in_tool_names _ = Inr False"

text \<open>
  The inner \<open>try\<close> block of \<open>llm_route\<close>: \<open>Inr (Some data)\<close> when it returns the tool
  intent, \<open>Inr None\<close> when it falls through, \<open>Inl e\<close> when it raises. \<open>json.loads\<close> is
  the parameter \<open>loads\<close>.
\<close>

definition try_tool :: "(pystr \<Rightarrow> exn + pyval) \<Rightarrow> pystr \<Rightarrow> exn + pyval option" where
  "try_tool loads content =
     (case loads content of
        Inl e \<Rightarrow> Inl e
      | Inr data \<Rightarrow>
          (case py_get data (ascii ''function'') PNone of
             Inl e \<Rightarrow> Inl e
           | Inr fn \<Rightarrow>
               (case py_get data (ascii ''parameters'') (PDict []) of
                  Inl e \<Rightarrow> Inl e
                | Inr params \<Rightarrow>
                    (case in_tool_names fn of
                       Inl e \<Rightarrow> Inl e
                     | Inr b \<Rightarrow> Inr (if b then Some data else None)))))"

definition tool_reply :: "pyval \<Rightarrow> pyval" where
  "tool_reply data = PDict [(ascii ''mode'', PStr (ascii ''tool'')), (ascii ''tool'', data)]"

definition text_reply :: "pystr \<Rightarrow> pyval" where
  "text_reply content = PDict [(ascii ''mode'', PStr (ascii ''text'')), (ascii ''reply'', PStr content)]"

text \<open>
  \<open>client\<close> tells whether \<open>_openai_client\<close> is set; \<open>chat\<close> is the request to the
  provider, as a function of the user message.
\<close>

definition llm_route ::
    "(pystr \<Rightarrow> exn + pyval) \<Rightarrow> bool \<Rightarrow> (pystr \<Rightarrow> llm_call) \<Rightarrow> pystr \<Rightarrow> pyval option" where
  "llm_route loads client chat message =
     (if \<not> client then None
      else
        (case chat message of
           Raises \<Rightarrow> None
         | Returns c \<Rightarrow>
             let content = strip_fences (case c of None \<Rightarrow> [] | Some x \<Rightarrow> x)
             in (case try_tool loads content of
                   Inr (Some data) \<Rightarrow> Some (tool_reply data)
                 | _ \<Rightarrow> Some (text_reply content))))"

subsection \<open>The executor\<close>

type_synonym pydict = "(pystr \<times> pyval) list"

definition execute_tool ::
    "(pystr \<Rightarrow> pystr) \<Rightarrow> pystr \<Rightarrow> pyval \<Rightarrow> store \<Rightarrow> (exn + pydict) \<times> store" where
  "execute_tool lower now tool s =
     (case py_get tool (ascii ''function'') PNone of
        Inl e \<Rightarrow> (Inl e, s)
      | Inr fn \<Rightarrow>
     (case py_get tool (ascii ''parameters'') (PDict []) of
        Inl e \<Rightarrow> (Inl e, s)
      | Inr p \<Rightarrow>
          if fn = PStr (ascii ''addTask'') then
            (case get_stripped p (ascii ''description'') of
               Inl e \<Rightarrow> (Inl e, s)
             | Inr d \<Rightarrow>
                 if d = [] then (Inr [(ascii ''error'', PStr (ascii ''description required''))], s)
                 else
                   let t = \<lparr>task_id = next_id s, description = d, completed = False,
                            created_at = now\<rparr>
                   in (Inr [(ascii ''ok'', PBool True), (ascii ''task'', task_json t)],
                       s\<lparr>tasks := tasks s @ [t], next_id := next_id s + 1\<rparr>))
          else if fn = PStr (ascii ''viewTasks'') then
            (Inr [(ascii ''ok'', PBool True), (ascii ''tasks'', PList (map task_json (tasks s)))], s)
          else if fn = PStr (ascii ''completeTask'') then
            (case get_stripped p (ascii ''description'') of
               Inl e \<Rightarrow> (Inl e, s)
             | Inr d \<Rightarrow>
                 (case find_task_by_desc lower (tasks s) (Some d) of
                    None \<Rightarrow> (Inr [(ascii ''error'', PStr (ascii ''not found''))], s)
                  | Some i \<Rightarrow>
                      let t = (tasks s ! i)\<lparr>completed := True\<rparr>
                      in (Inr [(ascii ''ok'', PBool True), (ascii ''task'', task_json t)],
                          s\<lparr>tasks := (tasks s)[i := t]\<rparr>)))
          else if fn = PStr (ascii ''deleteTask'') then
            (case get_stripped p (ascii ''description'') of
               Inl e \<Rightarrow> (Inl e, s)
             | Inr d \<Rightarrow>
                 (case find_task_by_desc lower (tasks s) (Some d) of
                    None \<Rightarrow> (Inr [(ascii ''error'', PStr (ascii ''not found''))], s)
                  | Some i \<Rightarrow>
                      (Inr [(ascii ''ok'', PBool True), (ascii ''deleted_description'', PStr d)],
                       s\<lparr>tasks := remove1 (tasks s ! i) (tasks s)\<rparr>)))
          else (Inr [(ascii ''error'', PStr (ascii ''unknown''))], s)))"

subsection \<open>The conversational endpoint\<close>

text \<open>\<open>result.get("ok")\<close> as a condition.\<close>

definition result_ok :: "pydict \<Rightarrow> bool" where
  "result_ok r = truthy (case map_of r (ascii ''ok'') of None \<Rightarrow> PNone | Some v \<Rightarrow> v)"

text \<open>
  The f-strings that quote \<open>tool['parameters']['description']\<close> between the code
  points U+201C and U+201D. Only a str is formatted by the model; on any other value
  the model stops with \<open>FormatNotModelled\<close>, which no store reachable from the initial
  one lets happen (\<open>brain_execute_modelled_reachable\<close> below).
\<close>

definition quoting :: "string \<Rightarrow> string \<Rightarrow> pyval \<Rightarrow> exn + pystr" where
  "quoting pre post tool =
     (case py_subscript tool (ascii ''parameters'') of
        Inl e \<Rightarrow> Inl e
      | Inr p \<Rightarrow>
          (case py_subscript p (ascii ''description'') of
             Inl e \<Rightarrow> Inl e
           | Inr (PStr d) \<Rightarrow> Inr (ascii pre @ [8220] @ d @ [8221] @ ascii post)
           | Inr _ \<Rightarrow> Inl FormatNotModelled))"

text \<open>Lines 192 to 196 of \<open>brain_execute\<close>; \<open>ts\<close> is the task list after the execution.\<close>

definition synth_reply :: "pyval \<Rightarrow> pydict \<Rightarrow> task list \<Rightarrow> exn + pystr" where
  "synth_reply tool result ts =
     (case py_subscript tool (ascii ''function'') of
        Inl e \<Rightarrow> Inl e
      | Inr fn \<Rightarrow>
          if fn = PStr (ascii ''addTask'') \<and> result_ok result then
            quoting ''Added '' ''.'' tool
          else if fn = PStr (ascii ''completeTask'') \<and> result_ok result then
            quoting ''Marked '' '' as done.'' tool
          else if fn = PStr (ascii ''deleteTask'') \<and> result_ok result then
            quoting ''Deleted '' ''.'' tool
          else if fn = PStr (ascii ''viewTasks'') then
            Inr (ascii ''You have '' @ str_int (int (length ts)) @ ascii '' task(s).'')
          else Inr (ascii ''OK''))"

text \<open>The body \<open>{"mode": "tool", "tool": tool, "result": result, "reply": reply}\<close>.\<close>

definition tool_answer :: "pyval \<Rightarrow> pydict \<Rightarrow> pystr \<Rightarrow> pyval" where
  "tool_answer tool result reply =
     PDict [(ascii ''mode'', PStr (ascii ''tool'')), (ascii ''tool'', tool),
            (ascii ''result'', PDict result), (ascii ''reply'', PStr reply)]"

definition sorry_reply :: pyval where
  "sorry_reply = text_reply (ascii ''Sorry, I can't do that.'')"

definition brain_execute ::
    "(pystr \<Rightarrow> pystr) \<Rightarrow> (pystr \<Rightarrow> exn + pyval) \<Rightarrow> bool \<Rightarrow> (pystr \<Rightarrow> llm_call) \<Rightarrow>
     pystr \<Rightarrow> pyval option \<Rightarrow> store \<Rightarrow> outcome" where
  "brain_execute lower loads client chat now body s =
     (case get_stripped (body_or_empty body) (ascii ''message'') of
        Inl e \<Rightarrow> (Inl e, s)
      | Inr msg \<Rightarrow>
          (case llm_route loads client chat msg of
             None \<Rightarrow> (Inr (sorry_reply, 200), s)
           | Some llm \<Rightarrow>
               if \<not> truthy llm then (Inr (py_or llm sorry_reply, 200), s)
               else
               (case py_get llm (ascii ''mode'') PNone of
                  Inl e \<Rightarrow> (Inl e, s)
                | Inr m \<Rightarrow>
                    if m = PStr (ascii ''text'') then
                      (Inr (py_or llm sorry_reply, 200), s)
                    else
                      (case py_subscript llm (ascii ''tool'') of
                         Inl e \<Rightarrow> (Inl e, s)
                       | Inr tool \<Rightarrow>
                           (case execute_tool lower now tool s of
                              (Inl e, s') \<Rightarrow> (Inl e, s')
                            | (Inr result, s') \<Rightarrow>
                                (case synth_reply tool result (tasks s') of
                                   Inl e \<Rightarrow> (Inl e, s')
                                 | Inr reply \<Rightarrow>
                                     (Inr (tool_answer tool result reply, 200), s')))))))"

text \<open>
  Flask answers a request whose handler raised with status 500; otherwise the status is
  the one the handler returned.
\<close>

definition http_status :: "exn + response \<Rightarrow> nat" where
  "http_status r = (case r of Inl e \<Rightarrow> 500 | Inr (b, st) \<Rightarrow> st)"

section \<open>Runs of the server\<close>

text \<open>
  A request carries what the handler reads from outside the store: the JSON body, the
  clock reading used for \<open>created_at\<close>, and what the provider does on this call.
\<close>

datatype request =
    GetTasks
  | CreateTask pystr "pyval option"
  | CompleteTask "pyval option"
  | DeleteTask "pyval option"
  | BrainExecute pystr "pystr \<Rightarrow> llm_call" "pyval option"

fun handle ::
    "(pystr \<Rightarrow> pystr) \<Rightarrow> (pystr \<Rightarrow> exn + pyval) \<Rightarrow> bool \<Rightarrow> request \<Rightarrow> store \<Rightarrow> outcome" where
  "handle lower loads client GetTasks s = get_tasks s"
| "handle lower loads client (CreateTask now body) s = create_task now body s"
| "handle lower loads client (CompleteTask body) s = complete_task_by_description lower body s"
| "handle lower loads client (DeleteTask body) s = delete_task_by_description lower body s"
| "handle lower loads client (BrainExecute now chat body) s =
     brain_execute lower loads client chat now body s"

fun run ::
    "(pystr \<Rightarrow> pystr) \<Rightarrow> (pystr \<Rightarrow> exn + pyval) \<Rightarrow> bool \<Rightarrow> request list \<Rightarrow> store \<Rightarrow> store" where
  "run lower loads client [] s = s"
| "run lower loads client (r # rs) s = run lower loads client rs (snd (handle lower loads client r s))"

section \<open>Predicates used to state the properties\<close>

text \<open>
  \<open>is_call tool f ps\<close>: \<open>tool\<close> is a dict whose \<open>function\<close> is the string \<open>f\<close> and whose
  \<open>parameters\<close> are the dict \<open>ps\<close>, or are absent when \<open>ps\<close> is empty.
\<close>

fun is_call :: "pyval \<Rightarrow> string \<Rightarrow> pydict \<Rightarrow> bool" where
  "is_call (PDict kvs) f ps \<longleftrightarrow>
     map_of kvs (ascii ''function'') = Some (PStr (ascii f)) \<and>
     (case map_of kvs (ascii ''parameters'') of None \<Rightarrow> ps = [] | Some p \<Rightarrow> p = PDict ps)"
| "is_call _ f ps \<longleftrightarrow> False"

text \<open>A field that is absent, \<open>null\<close>, or a string empty after trimming.\<close>

fun blank :: "pyval option \<Rightarrow> bool" where
  "blank None \<longleftrightarrow> True"
| "blank (Some PNone) \<longleftrightarrow> True"
| "blank (Some (PStr x)) \<longleftrightarrow> strip x = []"
| "blank (Some _) \<longleftrightarrow> False"

text \<open>\<open>has_function tool f\<close>: \<open>tool\<close> is a dict whose \<open>function\<close> is the string \<open>f\<close>.\<close>

fun has_function :: "pyval \<Rightarrow> string \<Rightarrow> bool" where
  "has_function (PDict kvs) f \<longleftrightarrow> map_of kvs (ascii ''function'') = Some (PStr (ascii f))"
| "has_function _ f \<longleftrightarrow> False"

text \<open>
  What the routing rule of the specification calls a tool intent: the text parsed, to
  a JSON object, whose \<open>function\<close> is one of the four names. The names are written
  out here as the specification lists them, not read from the router.
\<close>

fun is_tool_intent :: "exn + pyval \<Rightarrow> bool" where
  "is_tool_intent (Inr (PDict kvs)) \<longleftrightarrow>
     (case map_of kvs (ascii ''function'') of
        Some (PStr f) \<Rightarrow>
          f = ascii ''addTask'' \<or> f = ascii ''completeTask'' \<or> f = ascii ''deleteTask'' \<or>
          f = ascii ''viewTasks''
      | _ \<Rightarrow> False)"
| "is_tool_intent _ \<longleftrightarrow> False"

text \<open>A field that is absent, \<open>null\<close> or a string.\<close>

fun str_field :: "pyval option \<Rightarrow> bool" where
  "str_field None \<longleftrightarrow> True"
| "str_field (Some PNone) \<longleftrightarrow> True"
| "str_field (Some (PStr x)) \<longleftrightarrow> True"
| "str_field (Some _) \<longleftrightarrow> False"

text \<open>The trimmed \<open>message\<close> of a request body whose \<open>message\<close> is a string, else the empty string.\<close>

fun message_text :: "pyval option \<Rightarrow> pystr" where
  "message_text (Some (PDict kvs)) =
     (case map_of kvs (ascii ''message'') of Some (PStr m) \<Rightarrow> strip m | _ \<Rightarrow> [])"
| "message_text _ = []"

text \<open>
  The ids that a run assigns, in order: a request that makes the task list longer has
  appended a task, and its id is recorded.
\<close>

fun assigned ::
    "(pystr \<Rightarrow> pystr) \<Rightarrow> (pystr \<Rightarrow> exn + pyval) \<Rightarrow> bool \<Rightarrow> request list \<Rightarrow> store \<Rightarrow> int list" where
  "assigned lower loads client [] s = []"
| "assigned lower loads client (r # rs) s =
     (let s' = snd (handle lower loads client r s)
      in (if length (tasks s) < length (tasks s') then [task_id (last (tasks s'))] else []) @
         assigned lower loads client rs s')"

text \<open>
  The changes a request can make to the store: none, a task appended under the current
  counter (which then advances), one task marked completed, one task removed.
\<close>

inductive step :: "store \<Rightarrow> store \<Rightarrow> bool" where
  same: "step s s"
| added: "d \<noteq> [] \<Longrightarrow> strip d = d \<Longrightarrow>
     step s (s\<lparr>tasks := tasks s @ [\<lparr>task_id = next_id s, description = d, completed = False,
                                       created_at = now\<rparr>],
              next_id := next_id s + 1\<rparr>)"
| marked: "i < length (tasks s) \<Longrightarrow>
     step s (s\<lparr>tasks := (tasks s)[i := (tasks s ! i)\<lparr>completed := True\<rparr>]\<rparr>)"
| removed: "i < length (tasks s) \<Longrightarrow>
     step s (s\<lparr>tasks := take i (tasks s) @ drop (Suc i) (tasks s)\<rparr>)"

section \<open>Examples\<close>

text \<open>A provider that is down, and one that answers every message with the same text.\<close>

definition chat_down :: "pystr \<Rightarrow> llm_call" where
  "chat_down m = Raises"

definition chat_says :: "pystr \<Rightarrow> pystr \<Rightarrow> llm_call" where
  "chat_says c m = Returns (Some c)"

definition view_json :: pystr where
  \<open>view_json = ascii ''{"function":"viewTasks"}''\<close>

text \<open>A stand-in for \<open>json.loads\<close> that knows one text.\<close>

definition loads_view :: "pystr \<Rightarrow> exn + pyval" where
  "loads_view c =
     (if c = view_json then Inr (PDict [(ascii ''function'', PStr (ascii ''viewTasks''))])
      else Inl ValueError)"

text \<open>A stand-in for \<open>json.loads\<close> that parses every text to the same value.\<close>

definition loads_const :: "pyval \<Rightarrow> pystr \<Rightarrow> exn + pyval" where
  "loads_const v c = Inr v"

text \<open>A store with two tasks whose descriptions are equal after normalization.\<close>

definition milk1 :: task where
  "milk1 = \<lparr>task_id = 1, description = ascii ''buy milk'', completed = True, created_at = ascii ''t1''\<rparr>"

definition milk2 :: task where
  "milk2 = \<lparr>task_id = 2, description = ascii ''BUY MILK'', completed = False, created_at = ascii ''t2''\<rparr>"

definition two_milks :: store where
  "two_milks = \<lparr>tasks = [milk1, milk2], next_id = 3\<rparr>"

text \<open>The request body \<open>{"description": d}\<close>.\<close>

definition desc_body :: "pystr \<Rightarrow> pydict" where
  "desc_body d = [(ascii ''description'', PStr d)]"

text \<open>The tool call \<open>{"function": f, "parameters": {"description": d}}\<close>.\<close>

definition intent :: "string \<Rightarrow> pystr \<Rightarrow> pyval" where
  "intent f d = PDict [(ascii ''function'', PStr (ascii f)), (ascii ''parameters'', PDict (desc_body d))]"

text \<open>Create \<open>"a"\<close>, delete it as \<open>"A"\<close>, create \<open>"b"\<close>.\<close>

definition three_requests :: "request list" where
  "three_requests =
     [CreateTask (ascii ''t1'') (Some (PDict (desc_body (ascii ''a'')))),
      DeleteTask (Some (PDict (desc_body (ascii ''A'')))),
      CreateTask (ascii ''t2'') (Some (PDict (desc_body (ascii ''b''))))]"

section \<open>Lemmas\<close>

lemma ascii_eq_iff [simp]: "ascii s = ascii t \<longleftrightarrow> s = t"
  unfolding ascii_def by (rule inj_map_eq_map) (rule inj_of_char)

lemma ascii_Nil [simp]: "ascii [] = []"
  by (simp add: ascii_def)

lemma strip_Nil [simp]: "strip [] = []"
  by (simp add: strip_def strip_chars_def)

lemma get_stripped_blank:
  "blank (map_of ps k) \<Longrightarrow> get_stripped (PDict ps) k = Inr []"
  by (cases "(map_of ps k)" rule: blank.cases) (simp_all add: get_stripped_def py_or_def)

lemma get_stripped_str:
  "map_of ps k = Some (PStr x) \<Longrightarrow> get_stripped (PDict ps) k = Inr (strip x)"
  by (simp add: get_stripped_def py_or_def)

lemma is_callE:
  assumes "is_call tool f ps"
  obtains kvs where "tool = PDict kvs"
    and "py_get tool (ascii ''function'') PNone = Inr (PStr (ascii f))"
    and "py_get tool (ascii ''parameters'') (PDict []) = Inr (PDict ps)"
  using assms by (cases tool) (auto split: option.splits)

lemma execute_tool_add:
  assumes "is_call tool ''addTask'' ps"
  shows "execute_tool lower now tool s =
     (case get_stripped (PDict ps) (ascii ''description'') of
        Inl e \<Rightarrow> (Inl e, s)
      | Inr d \<Rightarrow>
          if d = [] then (Inr [(ascii ''error'', PStr (ascii ''description required''))], s)
          else (Inr [(ascii ''ok'', PBool True),
                     (ascii ''task'', task_json \<lparr>task_id = next_id s, description = d,
                        completed = False, created_at = now\<rparr>)],
                s\<lparr>tasks := tasks s @ [\<lparr>task_id = next_id s, description = d,
                        completed = False, created_at = now\<rparr>], next_id := next_id s + 1\<rparr>))"
  using assms by (elim is_callE) (simp add: execute_tool_def Let_def split: sum.splits option.splits)

lemma execute_tool_view:
  assumes "is_call tool ''viewTasks'' ps"
  shows "execute_tool lower now tool s =
     (Inr [(ascii ''ok'', PBool True), (ascii ''tasks'', PList (map task_json (tasks s)))], s)"
  using assms by (elim is_callE) (simp add: execute_tool_def)

lemma execute_tool_complete:
  assumes "is_call tool ''completeTask'' ps"
  shows "execute_tool lower now tool s =
     (case get_stripped (PDict ps) (ascii ''description'') of
        Inl e \<Rightarrow> (Inl e, s)
      | Inr d \<Rightarrow>
          (case find_task_by_desc lower (tasks s) (Some d) of
             None \<Rightarrow> (Inr [(ascii ''error'', PStr (ascii ''not found''))], s)
           | Some i \<Rightarrow>
               (Inr [(ascii ''ok'', PBool True),
                     (ascii ''task'', task_json ((tasks s ! i)\<lparr>completed := True\<rparr>))],
                s\<lparr>tasks := (tasks s)[i := (tasks s ! i)\<lparr>completed := True\<rparr>]\<rparr>)))"
  using assms by (elim is_callE) (simp add: execute_tool_def Let_def split: sum.splits option.splits)

lemma execute_tool_delete:
  assumes "is_call tool ''deleteTask'' ps"
  shows "execute_tool lower now tool s =
     (case get_stripped (PDict ps) (ascii ''description'') of
        Inl e \<Rightarrow> (Inl e, s)
      | Inr d \<Rightarrow>
          (case find_task_by_desc lower (tasks s) (Some d) of
             None \<Rightarrow> (Inr [(ascii ''error'', PStr (ascii ''not found''))], s)
           | Some i \<Rightarrow>
               (Inr [(ascii ''ok'', PBool True), (ascii ''deleted_description'', PStr d)],
                s\<lparr>tasks := remove1 (tasks s ! i) (tasks s)\<rparr>)))"
  using assms by (elim is_callE) (simp add: execute_tool_def)

lemma dropWhile_rev_keep:
  assumes "xs = [] \<or> \<not> P (hd xs)"
  shows "dropWhile P (rev (dropWhile P (rev xs))) = rev (dropWhile P (rev xs))"
proof (cases "dropWhile P (rev xs) = []")
  case True
  show ?thesis unfolding True by simp
next
  case False
  then have ne: "xs \<noteq> []" by auto
  have "last (dropWhile P (rev xs)) = last (rev xs)"
    using False by (simp add: dropWhile_eq_drop)
  then have "hd (rev (dropWhile P (rev xs))) = hd xs"
    using False ne by (simp add: hd_rev last_rev)
  then show ?thesis
    using assms ne False by (simp add: dropWhile_eq_self_iff)
qed

lemma strip_chars_idem: "strip_chars P (strip_chars P s) = strip_chars P s"
proof -
  let ?a = "dropWhile P s"
  have "?a = [] \<or> \<not> P (hd ?a)"
    using hd_dropWhile [of P s] by blast
  then have "dropWhile P (rev (dropWhile P (rev ?a))) = rev (dropWhile P (rev ?a))"
    by (rule dropWhile_rev_keep)
  then show ?thesis
    by (simp add: strip_chars_def)
qed

lemma first_index_None: "first_index P xs = None \<longleftrightarrow> (\<forall>x\<in>set xs. \<not> P x)"
  by (induction xs) auto

lemma first_index_Some:
  "first_index P xs = Some i \<Longrightarrow> i < length xs \<and> P (xs ! i) \<and> (\<forall>j<i. \<not> P (xs ! j))"
proof (induction xs arbitrary: i)
  case Nil
  then show ?case by simp
next
  case (Cons x xs)
  then show ?case
    by (auto split: if_splits simp: nth_Cons split: nat.splits)
qed

lemma first_index_remove1:
  "first_index P xs = Some i \<Longrightarrow> remove1 (xs ! i) xs = take i xs @ drop (Suc i) xs"
proof (induction xs arbitrary: i)
  case Nil
  then show ?case by simp
next
  case (Cons x xs)
  then show ?case
    by (auto split: if_splits dest: first_index_Some)
qed

lemma strip_idem [simp]: "strip (strip s) = strip s"
  by (simp add: strip_def strip_chars_idem)

lemma find_task_by_desc_strip [simp]:
  "find_task_by_desc lower ts (Some (strip d)) = find_task_by_desc lower ts (Some d)"
  by (simp add: find_task_by_desc_def)

lemma find_task_by_desc_None:
  "find_task_by_desc lower ts (Some d) = None \<longleftrightarrow>
     (\<forall>t\<in>set ts. lower (strip (description t)) \<noteq> lower (strip d))"
  by (simp add: find_task_by_desc_def first_index_None)

lemma find_task_by_desc_Some:
  assumes "find_task_by_desc lower ts (Some d) = Some i"
  shows "i < length ts"
    and "lower (strip (description (ts ! i))) = lower (strip d)"
    and "\<forall>j<i. lower (strip (description (ts ! j))) \<noteq> lower (strip d)"
    and "remove1 (ts ! i) ts = take i ts @ drop (Suc i) ts"
    and "ts[i := t] = take i ts @ [t] @ drop (Suc i) ts"
proof -
  let ?P = "\<lambda>t. lower (strip (description t)) = lower (strip d)"
  from assms have f: "first_index ?P ts = Some i"
    by (simp add: find_task_by_desc_def)
  from first_index_Some [OF f] show "i < length ts"
    and "lower (strip (description (ts ! i))) = lower (strip d)"
    and "\<forall>j<i. lower (strip (description (ts ! j))) \<noteq> lower (strip d)"
    by simp_all
  from first_index_remove1 [OF f] show "remove1 (ts ! i) ts = take i ts @ drop (Suc i) ts" .
  from \<open>i < length ts\<close> show "ts[i := t] = take i ts @ [t] @ drop (Suc i) ts"
    by (simp add: upd_conv_take_nth_drop)
qed

lemma rest_complete:
  assumes "map_of kvs (ascii ''description'') = Some (PStr d)"
  shows "complete_task_by_description lower (Some (PDict kvs)) s =
     (if strip d = [] then (Inr (error_body ''description is required'', 400), s)
      else
        (case find_task_by_desc lower (tasks s) (Some d) of
           None \<Rightarrow> (Inr (error_body ''task not found'', 404), s)
         | Some i \<Rightarrow>
             (Inr (task_json ((tasks s ! i)\<lparr>completed := True\<rparr>), 200),
              s\<lparr>tasks := (tasks s)[i := (tasks s ! i)\<lparr>completed := True\<rparr>]\<rparr>)))"
proof -
  have "map_of kvs (ascii ''description'') \<noteq> None"
    using assms by simp
  then have "kvs \<noteq> []" by auto
  then have "body_or_empty (Some (PDict kvs)) = PDict kvs"
    by (simp add: body_or_empty_def py_or_def)
  then show ?thesis
    using assms
    by (simp add: complete_task_by_description_def get_stripped_str Let_def split: option.splits)
qed

lemma rest_delete:
  assumes "map_of kvs (ascii ''description'') = Some (PStr d)"
  shows "delete_task_by_description lower (Some (PDict kvs)) s =
     (if strip d = [] then (Inr (error_body ''description is required'', 400), s)
      else
        (case find_task_by_desc lower (tasks s) (Some d) of
           None \<Rightarrow> (Inr (error_body ''task not found'', 404), s)
         | Some i \<Rightarrow>
             (Inr (PDict [(ascii ''ok'', PBool True),
                          (ascii ''deleted_description'', PStr (strip d))], 200),
              s\<lparr>tasks := remove1 (tasks s ! i) (tasks s)\<rparr>)))"
proof -
  have "map_of kvs (ascii ''description'') \<noteq> None"
    using assms by simp
  then have "kvs \<noteq> []" by auto
  then have "body_or_empty (Some (PDict kvs)) = PDict kvs"
    by (simp add: body_or_empty_def py_or_def)
  then show ?thesis
    using assms
    by (simp add: delete_task_by_description_def get_stripped_str split: option.splits)
qed

lemma exec_complete:
  assumes "is_call tool ''completeTask'' ps"
    and "map_of ps (ascii ''description'') = Some (PStr d)"
  shows "execute_tool lower now tool s =
     (case find_task_by_desc lower (tasks s) (Some d) of
        None \<Rightarrow> (Inr [(ascii ''error'', PStr (ascii ''not found''))], s)
      | Some i \<Rightarrow>
          (Inr [(ascii ''ok'', PBool True),
                (ascii ''task'', task_json ((tasks s ! i)\<lparr>completed := True\<rparr>))],
           s\<lparr>tasks := (tasks s)[i := (tasks s ! i)\<lparr>completed := True\<rparr>]\<rparr>))"
  by (simp add: execute_tool_complete [OF assms(1)] get_stripped_str [OF assms(2)])

lemma exec_delete:
  assumes "is_call tool ''deleteTask'' ps"
    and "map_of ps (ascii ''description'') = Some (PStr d)"
  shows "execute_tool lower now tool s =
     (case find_task_by_desc lower (tasks s) (Some d) of
        None \<Rightarrow> (Inr [(ascii ''error'', PStr (ascii ''not found''))], s)
      | Some i \<Rightarrow>
          (Inr [(ascii ''ok'', PBool True), (ascii ''deleted_description'', PStr (strip d))],
           s\<lparr>tasks := remove1 (tasks s ! i) (tasks s)\<rparr>))"
  by (simp add: execute_tool_delete [OF assms(1)] get_stripped_str [OF assms(2)])

lemma ascii_eq_Nil [simp]: "ascii s = [] \<longleftrightarrow> s = []"
  by (simp add: ascii_def)

lemma is_call_intent [simp]: "is_call (intent f d) f (desc_body d)"
  by (simp add: intent_def)

lemma desc_body_description [simp]: "map_of (desc_body d) (ascii ''description'') = Some (PStr d)"
  by (simp add: desc_body_def)

lemma strip_Buy_Milk: "strip (ascii ''  Buy Milk '') = ascii ''Buy Milk''"
  by (simp add: ascii_def strip_def strip_chars_def is_space_def)

lemma find_Buy_Milk:
  "find_task_by_desc lower_ascii (tasks two_milks) (Some (ascii ''  Buy Milk '')) = Some 0"
  by (simp add: find_task_by_desc_def two_milks_def milk1_def milk2_def lower_ascii_def
      ascii_def strip_def strip_chars_def is_space_def)

lemma try_tool_intent:
  "is_tool_intent (loads content) \<Longrightarrow> \<exists>data. loads content = Inr data \<and> try_tool loads content = Inr (Some data)"
  by (cases "loads content" rule: is_tool_intent.cases)
     (auto simp: try_tool_def tool_names_def split: option.splits pyval.splits)

lemma try_tool_other:
  "\<not> is_tool_intent (loads content) \<Longrightarrow> try_tool loads content \<noteq> Inr (Some data)"
  by (cases "loads content" rule: is_tool_intent.cases)
     (auto simp: try_tool_def tool_names_def split: option.splits pyval.splits sum.splits
        elim!: in_tool_names.elims)

lemma llm_route_returns:
  assumes "client" and "chat msg = Returns raw"
  shows "llm_route loads client chat msg =
     (case try_tool loads (strip_fences (case raw of None \<Rightarrow> [] | Some x \<Rightarrow> x)) of
        Inr (Some data) \<Rightarrow> Some (tool_reply data)
      | _ \<Rightarrow> Some (text_reply (strip_fences (case raw of None \<Rightarrow> [] | Some x \<Rightarrow> x))))"
  using assms by (simp add: llm_route_def Let_def)

lemma strip_fences_view:
  "strip_fences (ascii ''```json'' @ [10] @ view_json @ [10] @ ascii ''```'') = view_json"
  by (simp add: strip_fences_def after_newline_def strip_def strip_chars_def is_space_def
      view_json_def ascii_def)

lemma get_stripped_str_field:
  assumes "str_field (map_of kvs k)"
  shows "get_stripped (PDict kvs) k = Inr (case map_of kvs k of Some (PStr m) \<Rightarrow> strip m | _ \<Rightarrow> [])"
  using assms
  by (cases "map_of kvs k" rule: str_field.cases) (simp_all add: get_stripped_def py_or_def)

lemma message_read:
  assumes "body = None \<or> body = Some (PDict kvs) \<and> str_field (map_of kvs (ascii ''message''))"
  shows "get_stripped (body_or_empty body) (ascii ''message'') = Inr (message_text body)"
proof -
  have "body_or_empty (Some (PDict kvs)) = PDict kvs"
    by (cases kvs) (simp_all add: body_or_empty_def py_or_def)
  moreover have "get_stripped (body_or_empty None) (ascii ''message'') = Inr []"
    by (simp add: body_or_empty_def get_stripped_def py_or_def)
  ultimately show ?thesis
    using assms by (auto simp: get_stripped_str_field)
qed

lemma get_stripped_fixed: "get_stripped obj k = Inr d \<Longrightarrow> strip d = d"
  by (auto simp: get_stripped_def split: sum.splits elim!: py_strip.elims)

lemma find_task_by_desc_step:
  assumes "find_task_by_desc lower (tasks s) (Some d) = Some i"
  shows "step s (s\<lparr>tasks := (tasks s)[i := (tasks s ! i)\<lparr>completed := True\<rparr>]\<rparr>)"
    and "step s (s\<lparr>tasks := remove1 (tasks s ! i) (tasks s)\<rparr>)"
  using find_task_by_desc_Some(1,4) [OF assms] by (simp_all add: step.marked step.removed)

lemma execute_tool_step: "step s (snd (execute_tool lower now tool s))"
proof (cases "py_get tool (ascii ''function'') PNone")
  case (Inl e)
  then show ?thesis by (simp add: execute_tool_def step.same)
next
  case fn: (Inr fn)
  show ?thesis
  proof (cases "py_get tool (ascii ''parameters'') (PDict [])")
    case (Inl e)
    then show ?thesis using fn by (simp add: execute_tool_def step.same)
  next
    case p: (Inr p)
    show ?thesis
    proof (cases "get_stripped p (ascii ''description'')")
      case (Inl e)
      then show ?thesis using fn p by (simp add: execute_tool_def step.same)
    next
      case d: (Inr d)
      from get_stripped_fixed [OF d] have sd: "strip d = d" .
      show ?thesis
      proof (cases "find_task_by_desc lower (tasks s) (Some d)")
        case None
        then show ?thesis
          using fn p d sd by (auto simp: execute_tool_def Let_def intro: step.same step.added)
      next
        case (Some i)
        from find_task_by_desc_step [OF Some] show ?thesis
          using fn p d sd Some by (auto simp: execute_tool_def Let_def intro: step.same step.added)
      qed
    qed
  qed
qed

lemma create_task_step: "step s (snd (create_task now body s))"
  by (auto simp: create_task_def Let_def split: sum.splits dest: get_stripped_fixed
      intro: step.same step.added)

lemma complete_task_step: "step s (snd (complete_task_by_description lower body s))"
  by (auto simp: complete_task_by_description_def Let_def split: sum.splits option.splits
      intro: step.same find_task_by_desc_step)

lemma delete_task_step: "step s (snd (delete_task_by_description lower body s))"
  by (auto simp: delete_task_by_description_def split: sum.splits option.splits
      intro: step.same find_task_by_desc_step)

lemma execute_tool_step_pair: "execute_tool lower now tool s = (r, s') \<Longrightarrow> step s s'"
  using execute_tool_step [of s lower now tool] by simp

lemma brain_execute_step: "step s (snd (brain_execute lower loads client chat now body s))"
  by (auto simp: brain_execute_def split: sum.splits option.splits prod.splits
      intro: step.same dest: execute_tool_step_pair)

lemma handle_step: "step s (snd (handle lower loads client r s))"
  by (cases r)
     (simp_all add: get_tasks_def step.same create_task_step complete_task_step
        delete_task_step brain_execute_step)

lemma step_next_id_mono: "step s s' \<Longrightarrow> next_id s \<le> next_id s'"
  by (induction rule: step.induct) simp_all

lemma run_next_id_mono: "next_id s \<le> next_id (run lower loads client reqs s)"
proof (induction reqs arbitrary: s)
  case Nil
  then show ?case by simp
next
  case (Cons r rs)
  have "next_id s \<le> next_id (snd (handle lower loads client r s))"
    by (rule step_next_id_mono) (rule handle_step)
  also have "\<dots> \<le> next_id (run lower loads client rs (snd (handle lower loads client r s)))"
    by (rule Cons.IH)
  finally show ?case by simp
qed

lemma step_assigned:
  "step s s' \<Longrightarrow>
     (if length (tasks s) < length (tasks s') then [task_id (last (tasks s'))] else []) =
       [next_id s .. next_id s' - 1]"
  by (induction rule: step.induct) auto

lemma upto_join:
  fixes i j k :: int
  assumes "i \<le> j" and "j \<le> k"
  shows "[i .. j - 1] @ [j .. k - 1] = [i .. k - 1]"
proof (cases "j = k")
  case True
  then show ?thesis by simp
next
  case False
  with assms have "j \<le> k - 1" by simp
  from upto_split1 [OF assms(1) this] show ?thesis by simp
qed

lemma assigned_upto:
  "assigned lower loads client reqs s = [next_id s .. next_id (run lower loads client reqs s) - 1]"
proof (induction reqs arbitrary: s)
  case Nil
  then show ?case by simp
next
  case (Cons r rs)
  let ?s' = "snd (handle lower loads client r s)"
  have st: "step s ?s'" by (rule handle_step)
  have "assigned lower loads client (r # rs) s =
      [next_id s .. next_id ?s' - 1] @ [next_id ?s' .. next_id (run lower loads client rs ?s') - 1]"
    by (simp only: assigned.simps Let_def step_assigned [OF st] Cons.IH)
  also have "\<dots> = [next_id s .. next_id (run lower loads client rs ?s') - 1]"
    by (rule upto_join) (rule step_next_id_mono [OF st], rule run_next_id_mono)
  finally show ?case by simp
qed

lemma subseq_remove_nth: "subseq (take i xs @ drop (Suc i) xs) xs"
proof -
  have "drop (Suc i) xs = drop 1 (drop i xs)"
    by simp
  then have "suffix (drop (Suc i) xs) (drop i xs)"
    by (simp only: suffix_drop)
  then have "subseq (take i xs @ drop (Suc i) xs) (take i xs @ drop i xs)"
    by (intro list_emb_append_mono suffix_imp_subseq) simp_all
  then show ?thesis by simp
qed

lemma sorted_wrt_subseq:
  "subseq xs ys \<Longrightarrow> sorted_wrt P ys \<Longrightarrow> sorted_wrt P xs"
proof (induction rule: list_emb.induct)
  case (list_emb_Nil ys)
  then show ?case by simp
next
  case (list_emb_Cons xs ys y)
  then show ?case by simp
next
  case (list_emb_Cons2 x y xs ys)
  then have "set xs \<subseteq> set ys"
    by (auto dest: list_emb_set)
  with list_emb_Cons2 show ?case by auto
qed

lemma step_ids:
  "step s s' \<Longrightarrow>
     subseq (map task_id (tasks s')) (map task_id (tasks s) @ [next_id s .. next_id s' - 1])"
proof (induction rule: step.induct)
  case (same s)
  then show ?case by simp
next
  case (added d s now)
  then show ?case by simp
next
  case (marked i s)
  have "map task_id ((tasks s)[i := (tasks s ! i)\<lparr>completed := True\<rparr>]) = map task_id (tasks s)"
    using marked by (simp add: map_update list_update_same_conv)
  then show ?case by simp
next
  case (removed i s)
  have "subseq (map task_id (take i (tasks s) @ drop (Suc i) (tasks s))) (map task_id (tasks s))"
    by (rule subseq_map) (rule subseq_remove_nth)
  then show ?case by simp
qed

lemma run_ids:
  "subseq (map task_id (tasks (run lower loads client reqs s)))
     (map task_id (tasks s) @ assigned lower loads client reqs s)"
proof (induction reqs arbitrary: s)
  case Nil
  then show ?case by simp
next
  case (Cons r rs)
  let ?s' = "snd (handle lower loads client r s)"
  let ?s'' = "run lower loads client rs ?s'"
  have st: "step s ?s'" by (rule handle_step)
  have "subseq (map task_id (tasks ?s'')) (map task_id (tasks ?s') @ assigned lower loads client rs ?s')"
    by (rule Cons.IH)
  also have "subseq (map task_id (tasks ?s') @ assigned lower loads client rs ?s')
      ((map task_id (tasks s) @ [next_id s .. next_id ?s' - 1]) @ assigned lower loads client rs ?s')"
    by (rule list_emb_append_mono) (rule step_ids [OF st], simp)
  finally show ?case
    by (simp add: Let_def step_assigned [OF st])
qed

lemma create_task_str:
  assumes "map_of kvs (ascii ''description'') = Some (PStr d)" and "strip d \<noteq> []"
  shows "create_task now (Some (PDict kvs)) s =
     (Inr (task_json \<lparr>task_id = next_id s, description = strip d, completed = False,
             created_at = now\<rparr>, 201),
      s\<lparr>tasks := tasks s @ [\<lparr>task_id = next_id s, description = strip d, completed = False,
             created_at = now\<rparr>],
        next_id := next_id s + 1\<rparr>)"
proof -
  have "map_of kvs (ascii ''description'') \<noteq> None"
    using assms by simp
  then have "kvs \<noteq> []" by auto
  then have "body_or_empty (Some (PDict kvs)) = PDict kvs"
    by (simp add: body_or_empty_def py_or_def)
  then show ?thesis
    using assms by (simp add: create_task_def get_stripped_str Let_def)
qed

lemma strip_a: "strip (ascii ''a'') = ascii ''a''" "strip (ascii ''A'') = ascii ''A''"
  "strip (ascii ''b'') = ascii ''b''"
  by (simp_all add: ascii_def strip_def strip_chars_def is_space_def)

lemma run_three_requests:
  "run lower_ascii loads_view False three_requests init =
     \<lparr>tasks = [\<lparr>task_id = 2, description = ascii ''b'', completed = False, created_at = ascii ''t2''\<rparr>],
      next_id = 3\<rparr>"
proof -
  have f: "find_task_by_desc lower_ascii
      [\<lparr>task_id = 1, description = ascii ''a'', completed = False, created_at = ascii ''t1''\<rparr>]
      (Some (ascii ''A'')) = Some 0"
    by (simp add: find_task_by_desc_def lower_ascii_def strip_a) (simp add: ascii_def)
  show ?thesis
    by (simp add: three_requests_def init_def create_task_str rest_delete strip_a f)
qed

lemma step_no_blank:
  assumes "step s s'" and "\<forall>t\<in>set (tasks s). strip (description t) \<noteq> []"
  shows "\<forall>t\<in>set (tasks s'). strip (description t) \<noteq> []"
  using assms
proof (induction rule: step.induct)
  case (same s)
  then show ?case by simp
next
  case (added d s now)
  then show ?case by simp
next
  case (marked i s)
  have "set ((tasks s)[i := (tasks s ! i)\<lparr>completed := True\<rparr>]) \<subseteq>
      insert ((tasks s ! i)\<lparr>completed := True\<rparr>) (set (tasks s))"
    by (rule set_update_subset_insert)
  with marked show ?case by auto
next
  case (removed i s)
  have "set (take i (tasks s) @ drop (Suc i) (tasks s)) \<subseteq> set (tasks s)"
    using set_take_subset [of i "tasks s"] set_drop_subset [of "Suc i" "tasks s"] by auto
  with removed show ?case by auto
qed

lemma run_no_blank:
  assumes "\<forall>t\<in>set (tasks s). strip (description t) \<noteq> []"
  shows "\<forall>t\<in>set (tasks (run lower loads client reqs s)). strip (description t) \<noteq> []"
  using assms
proof (induction reqs arbitrary: s)
  case Nil
  then show ?case by simp
next
  case (Cons r rs)
  have "\<forall>t\<in>set (tasks (snd (handle lower loads client r s))). strip (description t) \<noteq> []"
    by (rule step_no_blank [OF handle_step Cons.prems])
  from Cons.IH [OF this] show ?case by simp
qed

lemma llm_route_tool:
  assumes "llm_route loads client chat msg = Some (tool_reply tool)"
  shows "\<exists>kvs f. tool = PDict kvs \<and> map_of kvs (ascii ''function'') = Some (PStr f) \<and>
           f \<in> set tool_names"
proof -
  from assms obtain content where t: "try_tool loads content = Inr (Some tool)"
    by (auto simp: llm_route_def Let_def tool_reply_def text_reply_def
        split: if_splits llm_call.splits sum.splits option.splits)
  then obtain fn where d: "loads content = Inr tool"
    and f: "py_get tool (ascii ''function'') PNone = Inr fn"
    and n: "in_tool_names fn = Inr True"
    by (auto simp: try_tool_def split: sum.splits if_splits)
  from n obtain f where fn: "fn = PStr f" and "f \<in> set tool_names"
    by (cases fn) simp_all
  with f show ?thesis
    by (cases tool) (auto split: option.splits)
qed

lemma has_function_view_exec:
  assumes "has_function tool ''viewTasks''"
  shows "execute_tool lower now tool s =
     (Inr [(ascii ''ok'', PBool True), (ascii ''tasks'', PList (map task_json (tasks s)))], s)"
  using assms by (cases tool) (simp_all add: execute_tool_def)

lemma synth_reply_view:
  assumes "has_function tool ''viewTasks''"
  shows "synth_reply tool result ts =
     Inr (ascii ''You have '' @ str_int (int (length ts)) @ ascii '' task(s).'')"
  using assms by (cases tool) (simp_all add: synth_reply_def)

lemma synth_reply_failed:
  assumes "tool = PDict kvs" and "map_of kvs (ascii ''function'') = Some (PStr f)"
    and "f \<noteq> ascii ''viewTasks''" and "\<not> result_ok result"
  shows "synth_reply tool result ts = Inr (ascii ''OK'')"
  using assms by (simp add: synth_reply_def)

lemma quoting_str:
  assumes "is_call tool f ps" and "map_of ps (ascii ''description'') = Some (PStr d)"
  shows "quoting pre post tool = Inr (ascii pre @ [8220] @ d @ [8221] @ ascii post)"
proof -
  from assms(1) obtain kvs where t: "tool = PDict kvs"
    and p: "case map_of kvs (ascii ''parameters'') of None \<Rightarrow> ps = [] | Some p \<Rightarrow> p = PDict ps"
    by (cases tool) simp_all
  from assms(2) have "ps \<noteq> []" by auto
  with p have "map_of kvs (ascii ''parameters'') = Some (PDict ps)"
    by (simp split: option.splits)
  with t assms(2) show ?thesis
    by (simp add: quoting_def)
qed

lemma synth_reply_ok:
  assumes "is_call tool f ps" and "map_of ps (ascii ''description'') = Some (PStr d)"
    and "result_ok result"
  shows "f = ''addTask'' \<Longrightarrow>
           synth_reply tool result ts = Inr (ascii ''Added '' @ [8220] @ d @ [8221] @ ascii ''.'')"
    and "f = ''completeTask'' \<Longrightarrow>
           synth_reply tool result ts =
             Inr (ascii ''Marked '' @ [8220] @ d @ [8221] @ ascii '' as done.'')"
    and "f = ''deleteTask'' \<Longrightarrow>
           synth_reply tool result ts = Inr (ascii ''Deleted '' @ [8220] @ d @ [8221] @ ascii ''.'')"
proof -
  from assms(1) obtain kvs where t: "tool = PDict kvs"
    and fn: "map_of kvs (ascii ''function'') = Some (PStr (ascii f))"
    by (cases tool) simp_all
  have q: "\<And>pre post. quoting pre post (PDict kvs) =
      Inr (ascii pre @ [8220] @ d @ [8221] @ ascii post)"
    using quoting_str [OF assms(1,2)] t by simp
  show "f = ''addTask'' \<Longrightarrow>
           synth_reply tool result ts = Inr (ascii ''Added '' @ [8220] @ d @ [8221] @ ascii ''.'')"
    using t fn assms(3) by (simp add: synth_reply_def q)
  show "f = ''completeTask'' \<Longrightarrow>
           synth_reply tool result ts =
             Inr (ascii ''Marked '' @ [8220] @ d @ [8221] @ ascii '' as done.'')"
    using t fn assms(3) by (simp add: synth_reply_def q)
  show "f = ''deleteTask'' \<Longrightarrow>
           synth_reply tool result ts = Inr (ascii ''Deleted '' @ [8220] @ d @ [8221] @ ascii ''.'')"
    using t fn assms(3) by (simp add: synth_reply_def q)
qed

lemma brain_execute_tool:
  assumes "get_stripped (body_or_empty body) (ascii ''message'') = Inr msg"
    and "llm_route loads client chat msg = Some (tool_reply tool)"
    and "execute_tool lower now tool s = (Inr result, s')"
  shows "brain_execute lower loads client chat now body s =
     (case synth_reply tool result (tasks s') of
        Inl e \<Rightarrow> (Inl e, s')
      | Inr reply \<Rightarrow> (Inr (tool_answer tool result reply, 200), s'))"
  using assms by (simp add: brain_execute_def) (simp add: tool_reply_def)

lemma llm_route_const:
  assumes "is_tool_intent (Inr v)"
  shows "llm_route (loads_const v) True (chat_says c) msg = Some (tool_reply v)"
proof -
  have i: "is_tool_intent (loads_const v (strip_fences c))"
    using assms by (simp add: loads_const_def)
  from try_tool_intent [where loads = "loads_const v" and content = "strip_fences c", OF i]
  have "try_tool (loads_const v) (strip_fences c) = Inr (Some v)"
    by (simp add: loads_const_def)
  then show ?thesis
    by (simp add: llm_route_def chat_says_def)
qed

lemma intent_is_tool [simp]:
  "is_tool_intent (Inr (intent f d)) \<longleftrightarrow> ascii f \<in> set tool_names"
  by (simp add: intent_def tool_names_def)

lemma get_stripped_nonempty:
  assumes "get_stripped p k = Inr d" and "d \<noteq> []"
  shows "\<exists>ps x. p = PDict ps \<and> map_of ps k = Some (PStr x)"
proof -
  from assms(1) obtain ps where p: "p = PDict ps"
    by (cases p) (simp_all add: get_stripped_def)
  show ?thesis
  proof (cases "map_of ps k")
    case None
    with assms p show ?thesis by (simp add: get_stripped_def py_or_def)
  next
    case (Some v)
    with assms p show ?thesis
      by (cases v) (auto simp: get_stripped_def py_or_def split: if_splits)
  qed
qed

lemma quoting_modelled:
  assumes "py_get tool (ascii ''parameters'') (PDict []) = Inr p"
    and "get_stripped p (ascii ''description'') = Inr d" and "d \<noteq> []"
  shows "quoting pre post tool \<noteq> Inl FormatNotModelled"
proof -
  from get_stripped_nonempty [OF assms(2,3)] obtain ps x
    where p: "p = PDict ps" and x: "map_of ps (ascii ''description'') = Some (PStr x)"
    by blast
  from x have "ps \<noteq> []" by auto
  with assms(1) p obtain kvs where "tool = PDict kvs"
    and "map_of kvs (ascii ''parameters'') = Some (PDict ps)"
    by (cases tool) (auto split: option.splits)
  with x show ?thesis
    by (simp add: quoting_def)
qed

lemma synth_reply_modelled:
  assumes "execute_tool lower now tool s = (Inr result, s')"
    and "\<forall>t\<in>set (tasks s). strip (description t) \<noteq> []"
    and "\<forall>x. lower x = [] \<longleftrightarrow> x = []"
  shows "synth_reply tool result ts \<noteq> Inl FormatNotModelled"
proof (cases "py_subscript tool (ascii ''function'')")
  case (Inl e)
  then show ?thesis
    by (cases tool) (auto simp: synth_reply_def split: option.splits)
next
  case (Inr fn)
  then have g: "py_get tool (ascii ''function'') PNone = Inr fn"
    by (cases tool) (auto split: option.splits)
  from assms(1) obtain p where p: "py_get tool (ascii ''parameters'') (PDict []) = Inr p"
    using g by (auto simp: execute_tool_def split: sum.splits)
  have q: "fn \<in> {PStr (ascii ''addTask''), PStr (ascii ''completeTask''), PStr (ascii ''deleteTask'')} \<Longrightarrow>
      result_ok result \<Longrightarrow> quoting pre post tool \<noteq> Inl FormatNotModelled" for pre post
  proof -
    assume fn: "fn \<in> {PStr (ascii ''addTask''), PStr (ascii ''completeTask''), PStr (ascii ''deleteTask'')}"
      and ok: "result_ok result"
    from assms(1) g p fn ok obtain d where d: "get_stripped p (ascii ''description'') = Inr d"
      by (auto simp: execute_tool_def result_ok_def split: sum.splits)
    have "d \<noteq> []"
    proof
      assume e: "d = []"
      have l0: "lower [] = []"
        using assms(3) by simp
      have "\<forall>t\<in>set (tasks s). lower (strip (description t)) \<noteq> []"
        using assms(2,3) by simp
      then have "find_task_by_desc lower (tasks s) (Some []) = None"
        by (simp add: find_task_by_desc_None l0)
      with assms(1) g p fn ok d e show False
        by (auto simp: execute_tool_def result_ok_def)
    qed
    from quoting_modelled [OF p d this] show ?thesis .
  qed
  show ?thesis
    using Inr q by (auto simp: synth_reply_def)
qed

lemma brain_execute_modelled:
  assumes "\<forall>t\<in>set (tasks s). strip (description t) \<noteq> []"
    and "\<forall>x. lower x = [] \<longleftrightarrow> x = []"
  shows "fst (brain_execute lower loads client chat now body s) \<noteq> Inl FormatNotModelled"
proof -
  have e: "execute_tool lower now tool s \<noteq> (Inl FormatNotModelled, s')" for tool s'
    by (auto simp: execute_tool_def get_stripped_def Let_def
        split: sum.splits option.splits if_splits elim!: py_get.elims py_strip.elims)
  have g: "get_stripped obj k \<noteq> Inl FormatNotModelled" for obj k
    by (auto simp: get_stripped_def split: sum.splits elim!: py_get.elims py_strip.elims)
  have pg: "py_get obj k d \<noteq> Inl FormatNotModelled" for obj k d
    by (cases obj) simp_all
  have ps: "py_subscript obj k \<noteq> Inl FormatNotModelled" for obj k
    by (cases obj) (simp_all split: option.splits)
  show ?thesis
    using e g pg ps synth_reply_modelled [OF _ assms]
    by (auto simp: brain_execute_def split: sum.splits option.splits prod.splits)
qed

lemma brain_execute_modelled_reachable:
  assumes "\<forall>x. lower x = [] \<longleftrightarrow> x = []"
  shows "fst (brain_execute lower loads client chat now body (run lower loads client reqs init)) \<noteq>
    Inl FormatNotModelled"
proof -
  have "\<forall>t\<in>set (tasks init). strip (description t) \<noteq> []"
    by (simp add: init_def)
  then have "\<forall>t\<in>set (tasks (run lower loads client reqs init)). strip (description t) \<noteq> []"
    by (rule run_no_blank)
  then show ?thesis
    using assms by (rule brain_execute_modelled)
qed

lemma route_classification_aux:
  assumes "client"
    and "chat msg = Returns raw"
    and "content = strip_fences (case raw of None \<Rightarrow> [] | Some x \<Rightarrow> x)"
  shows "(is_tool_intent (loads content) \<longrightarrow>
            (\<exists>data. loads content = Inr data \<and>
               llm_route loads client chat msg = Some (tool_reply data))) \<and>
         (\<not> is_tool_intent (loads content) \<longrightarrow>
            llm_route loads client chat msg = Some (text_reply content))"
proof -
  have r: "llm_route loads client chat msg =
     (case try_tool loads content of
        Inr (Some data) \<Rightarrow> Some (tool_reply data)
      | _ \<Rightarrow> Some (text_reply content))"
    by (simp only: llm_route_returns [where chat = chat and msg = msg, OF assms(1,2)]
        assms(3) [symmetric])
  show ?thesis
  proof (cases "is_tool_intent (loads content)")
    case True
    from try_tool_intent [where loads = loads and content = content, OF True] obtain data
      where "loads content = Inr data" and "try_tool loads content = Inr (Some data)"
      by blast
    then show ?thesis
      using True by (simp add: r)
  next
    case False
    from try_tool_other [where loads = loads and content = content, OF False]
    have n: "\<And>data. try_tool loads content \<noteq> Inr (Some data)" .
    have "llm_route loads client chat msg = Some (text_reply content)"
    proof (cases "try_tool loads content")
      case (Inl e)
      then show ?thesis by (simp add: r)
    next
      case (Inr res)
      with n show ?thesis by (cases res) (auto simp: r)
    qed
    then show ?thesis
      using False by simp
  qed
qed

lemma reply_synthesis_aux:
  assumes "body = None \<or> body = Some (PDict kvs) \<and> str_field (map_of kvs (ascii ''message''))"
    and "llm_route loads client chat (message_text body) = Some (tool_reply tool)"
    and "execute_tool lower now tool s = (Inr result, s')"
  shows "(has_function tool ''viewTasks'' \<longrightarrow>
            brain_execute lower loads client chat now body s =
              (Inr (tool_answer tool result
                 (ascii ''You have '' @ str_int (int (length (tasks s'))) @ ascii '' task(s).''),
                 200), s')) \<and>
         (\<not> result_ok result \<longrightarrow>
            brain_execute lower loads client chat now body s =
              (Inr (tool_answer tool result (ascii ''OK''), 200), s')) \<and>
         (result_ok result \<and> is_call tool ''addTask'' ps \<and>
          map_of ps (ascii ''description'') = Some (PStr d) \<longrightarrow>
            brain_execute lower loads client chat now body s =
              (Inr (tool_answer tool result
                 (ascii ''Added '' @ [8220] @ d @ [8221] @ ascii ''.''), 200), s')) \<and>
         (result_ok result \<and> is_call tool ''completeTask'' ps \<and>
          map_of ps (ascii ''description'') = Some (PStr d) \<longrightarrow>
            brain_execute lower loads client chat now body s =
              (Inr (tool_answer tool result
                 (ascii ''Marked '' @ [8220] @ d @ [8221] @ ascii '' as done.''), 200), s')) \<and>
         (result_ok result \<and> is_call tool ''deleteTask'' ps \<and>
          map_of ps (ascii ''description'') = Some (PStr d) \<longrightarrow>
            brain_execute lower loads client chat now body s =
              (Inr (tool_answer tool result
                 (ascii ''Deleted '' @ [8220] @ d @ [8221] @ ascii ''.''), 200), s'))"
proof -
  note b = brain_execute_tool [OF message_read [OF assms(1)] assms(2,3)]
  from llm_route_tool [OF assms(2)] obtain tkvs f
    where t: "tool = PDict tkvs" and fn: "map_of tkvs (ascii ''function'') = Some (PStr f)"
    by blast
  have v: "has_function tool ''viewTasks'' \<Longrightarrow> result_ok result"
    using has_function_view_exec [of tool lower now s] assms(3) by (auto simp: result_ok_def)
  have failed: "\<not> result_ok result \<Longrightarrow> synth_reply tool result (tasks s') = Inr (ascii ''OK'')"
  proof -
    assume n: "\<not> result_ok result"
    with v have "\<not> has_function tool ''viewTasks''" by blast
    with t fn have "f \<noteq> ascii ''viewTasks''" by auto
    from synth_reply_failed [OF t fn this n] show ?thesis .
  qed
  show ?thesis
    by (auto simp: b synth_reply_view failed synth_reply_ok)
qed

lemma execute_tool_ok_cases:
  assumes "execute_tool lower now tool s = (Inr result, s')"
  shows "map_of result (ascii ''ok'') = None \<or> map_of result (ascii ''ok'') = Some (PBool True)"
  using assms
  by (auto simp: execute_tool_def Let_def split: sum.splits if_splits option.splits)

section \<open>Claims\<close>

text \<open>
  C6, as the code has it. A creation request whose description is missing, \<open>null\<close>,
  empty or whitespace-only is rejected when the description can be read at all:
  \<open>POST /api/tasks\<close> with no JSON body or with a JSON object as body answers 400 with
  \<open>{error: "description is required"}\<close>; the executor's \<open>addTask\<close> with \<open>parameters\<close>
  absent or a JSON object returns \<open>{error: "description required"}\<close>; and in both cases
  the store (task list and id counter) is the one before the call.
\<close>

theorem blank_description_rejected:
  assumes "blank (map_of kvs (ascii ''description''))"
    and "is_call tool ''addTask'' ps"
    and "blank (map_of ps (ascii ''description''))"
  shows "create_task now None s =
           (Inr (PDict [(ascii ''error'', PStr (ascii ''description is required''))], 400), s) \<and>
         create_task now (Some (PDict kvs)) s =
           (Inr (PDict [(ascii ''error'', PStr (ascii ''description is required''))], 400), s) \<and>
         execute_tool lower now tool s =
           (Inr [(ascii ''error'', PStr (ascii ''description required''))], s)"
proof -
  have "body_or_empty (Some (PDict kvs)) = PDict kvs"
    by (simp add: body_or_empty_def py_or_def)
  then have "get_stripped (body_or_empty (Some (PDict kvs))) (ascii ''description'') = Inr []"
    using assms(1) by (simp add: get_stripped_blank)
  moreover have "get_stripped (body_or_empty None) (ascii ''description'') = Inr []"
    by (simp add: body_or_empty_def get_stripped_blank)
  moreover have "get_stripped (PDict ps) (ascii ''description'') = Inr []"
    using assms(3) by (rule get_stripped_blank)
  ultimately show ?thesis
    using assms(2) by (simp add: create_task_def execute_tool_add error_body_def)
qed

theorem blank_description_rejected_witness:
  "create_task [] (Some (PDict [(ascii ''description'', PStr (ascii '' ''))])) init =
     (Inr (PDict [(ascii ''error'', PStr (ascii ''description is required''))], 400), init) \<and>
   create_task [] None init =
     (Inr (PDict [(ascii ''error'', PStr (ascii ''description is required''))], 400), init) \<and>
   execute_tool lower_ascii []
       (PDict [(ascii ''function'', PStr (ascii ''addTask'')),
               (ascii ''parameters'', PDict [(ascii ''description'', PStr (ascii '' ''))])]) init =
     (Inr [(ascii ''error'', PStr (ascii ''description required''))], init)"
proof -
  have sp: "strip (ascii '' '') = []"
    by (simp add: ascii_def strip_def strip_chars_def is_space_def)
  have b: "blank (map_of [(ascii ''description'', PStr (ascii '' ''))] (ascii ''description''))"
    by (simp add: sp)
  have c: "is_call (PDict [(ascii ''function'', PStr (ascii ''addTask'')),
               (ascii ''parameters'', PDict [(ascii ''description'', PStr (ascii '' ''))])])
             ''addTask'' [(ascii ''description'', PStr (ascii '' ''))]"
    by simp
  from blank_description_rejected [OF b c b, of "[]" init lower_ascii]
  show ?thesis by simp
qed

text \<open>
  C6, as stated for every creation request without a description, at the POST body
  \<open>[1]\<close> and at the call \<open>{"function": "addTask", "parameters": null}\<close>: neither has a
  description, and both raise \<open>AttributeError\<close> on \<open>.get\<close>, so the REST answer is a
  500, not a 400, and the executor returns no result at all.
\<close>

theorem blank_description_raises_counterexample:
  "create_task [] (Some (PList [PInt 1])) init = (Inl AttributeError, init) \<and>
   http_status (fst (create_task [] (Some (PList [PInt 1])) init)) = 500 \<and>
   execute_tool lower_ascii []
       (PDict [(ascii ''function'', PStr (ascii ''addTask'')), (ascii ''parameters'', PNone)])
       init = (Inl AttributeError, init)"
  by (simp add: create_task_def body_or_empty_def py_or_def get_stripped_def http_status_def
      execute_tool_def)

text \<open>
  C9. Whenever the executor returns an error result (a dict with the key \<open>error\<close>),
  the task list and the id counter are exactly as they were before the call.
\<close>

theorem error_results_leave_store:
  assumes "execute_tool lower now tool s = (Inr r, s')"
    and "map_of r (ascii ''error'') \<noteq> None"
  shows "tasks s' = tasks s \<and> next_id s' = next_id s \<and> s' = s"
  using assms
  by (auto simp: execute_tool_def Let_def split: sum.splits if_splits option.splits)

theorem error_results_leave_store_witness:
  "snd (execute_tool lower_ascii [] (PDict [(ascii ''function'', PStr (ascii ''renameTask''))]) init) = init"
proof -
  have e: "execute_tool lower_ascii [] (PDict [(ascii ''function'', PStr (ascii ''renameTask''))]) init =
      (Inr [(ascii ''error'', PStr (ascii ''unknown''))],
       snd (execute_tool lower_ascii [] (PDict [(ascii ''function'', PStr (ascii ''renameTask''))]) init))"
    by (simp add: execute_tool_def)
  have m: "map_of [(ascii ''error'', PStr (ascii ''unknown''))] (ascii ''error'') \<noteq> None"
    by simp
  from error_results_leave_store [OF e m] show ?thesis by simp
qed

text \<open>
  C4. Lookup by description compares the trimmed, case-folded input with the trimmed,
  case-folded description of each stored task and returns the first match in list
  order. When there is none, the executor returns \<open>{error: "not found"}\<close> and the
  REST handlers answer 404, the store unchanged. When position \<open>i\<close> is the first match,
  completing changes the task at \<open>i\<close> only and deleting removes the entry at \<open>i\<close> only:
  every other entry, earlier or later, stays as it is. (The REST handlers look up only
  a description that is non-empty after trimming.)
\<close>

theorem lookup_resolves_first_match:
  assumes "map_of kvs (ascii ''description'') = Some (PStr d)"
    and "is_call ctool ''completeTask'' ps"
    and "is_call dtool ''deleteTask'' ps"
    and "map_of ps (ascii ''description'') = Some (PStr d)"
  shows
    "(case find_task_by_desc lower (tasks s) (Some d) of
        None \<Rightarrow>
          (\<forall>t\<in>set (tasks s). lower (strip (description t)) \<noteq> lower (strip d)) \<and>
          execute_tool lower now ctool s = (Inr [(ascii ''error'', PStr (ascii ''not found''))], s) \<and>
          execute_tool lower now dtool s = (Inr [(ascii ''error'', PStr (ascii ''not found''))], s) \<and>
          (strip d \<noteq> [] \<longrightarrow>
             complete_task_by_description lower (Some (PDict kvs)) s =
               (Inr (error_body ''task not found'', 404), s) \<and>
             delete_task_by_description lower (Some (PDict kvs)) s =
               (Inr (error_body ''task not found'', 404), s))
      | Some i \<Rightarrow>
          i < length (tasks s) \<and>
          lower (strip (description (tasks s ! i))) = lower (strip d) \<and>
          (\<forall>j<i. lower (strip (description (tasks s ! j))) \<noteq> lower (strip d)) \<and>
          tasks (snd (execute_tool lower now ctool s)) =
            take i (tasks s) @ [(tasks s ! i)\<lparr>completed := True\<rparr>] @ drop (Suc i) (tasks s) \<and>
          tasks (snd (execute_tool lower now dtool s)) =
            take i (tasks s) @ drop (Suc i) (tasks s) \<and>
          length (tasks (snd (execute_tool lower now dtool s))) + 1 = length (tasks s) \<and>
          (strip d \<noteq> [] \<longrightarrow>
             tasks (snd (complete_task_by_description lower (Some (PDict kvs)) s)) =
               take i (tasks s) @ [(tasks s ! i)\<lparr>completed := True\<rparr>] @ drop (Suc i) (tasks s) \<and>
             tasks (snd (delete_task_by_description lower (Some (PDict kvs)) s)) =
               take i (tasks s) @ drop (Suc i) (tasks s)))"
proof (cases "find_task_by_desc lower (tasks s) (Some d)")
  case None
  then show ?thesis
    by (simp add: find_task_by_desc_None [symmetric] exec_complete [OF assms(2,4)]
        exec_delete [OF assms(3,4)] rest_complete [OF assms(1)] rest_delete [OF assms(1)])
next
  case (Some i)
  note f = find_task_by_desc_Some [OF Some]
  have len: "length (take i (tasks s) @ drop (Suc i) (tasks s)) + 1 = length (tasks s)"
    using f(1) by simp
  show ?thesis
    using f(1,2,3) len
    by (simp add: Some exec_complete [OF assms(2,4)] exec_delete [OF assms(3,4)]
        rest_complete [OF assms(1)] rest_delete [OF assms(1)] f(4) f(5) del: length_append)
qed

theorem lookup_resolves_first_match_witness:
  "tasks (snd (execute_tool lower_ascii [] (intent ''completeTask'' (ascii ''  Buy Milk '')) two_milks)) =
     [milk1, milk2] \<and>
   tasks (snd (execute_tool lower_ascii [] (intent ''deleteTask'' (ascii ''  Buy Milk '')) two_milks)) =
     [milk2] \<and>
   tasks (snd (complete_task_by_description lower_ascii
     (Some (PDict (desc_body (ascii ''  Buy Milk '')))) two_milks)) = [milk1, milk2] \<and>
   tasks (snd (delete_task_by_description lower_ascii
     (Some (PDict (desc_body (ascii ''  Buy Milk '')))) two_milks)) = [milk2]"
proof -
  have ne: "strip (ascii ''  Buy Milk '') \<noteq> []"
    by (simp add: strip_Buy_Milk)
  have ts: "tasks two_milks = [milk1, milk2]"
    by (simp add: two_milks_def)
  have m: "milk1\<lparr>completed := True\<rparr> = milk1"
    by (simp add: milk1_def)
  from lookup_resolves_first_match [where lower = lower_ascii and s = two_milks and now = "[]",
      OF desc_body_description is_call_intent is_call_intent desc_body_description,
      where d = "ascii ''  Buy Milk ''"]
  show ?thesis
    by (simp add: find_Buy_Milk ne) (simp add: ts m)
qed

text \<open>
  C7. Completing a task that is already completed leaves the whole store unchanged,
  so \<open>completed\<close> stays true and no other field moves, and returns the task as a
  success: \<open>{ok: true, task}\<close> from the executor, 200 with the task from
  \<open>PATCH /api/tasks/by-description\<close>.
\<close>

theorem complete_idempotent:
  assumes "find_task_by_desc lower (tasks s) (Some d) = Some i"
    and "completed (tasks s ! i)"
    and "map_of kvs (ascii ''description'') = Some (PStr d)"
    and "is_call tool ''completeTask'' ps"
    and "map_of ps (ascii ''description'') = Some (PStr d)"
  shows "execute_tool lower now tool s =
           (Inr [(ascii ''ok'', PBool True), (ascii ''task'', task_json (tasks s ! i))], s) \<and>
         completed (tasks s ! i) \<and>
         (strip d \<noteq> [] \<longrightarrow>
            complete_task_by_description lower (Some (PDict kvs)) s =
              (Inr (task_json (tasks s ! i), 200), s))"
proof -
  have t: "(tasks s ! i)\<lparr>completed := True\<rparr> = tasks s ! i"
    using assms(2) by simp
  have "s\<lparr>tasks := (tasks s)[i := tasks s ! i]\<rparr> = s"
    by simp
  then show ?thesis
    using assms(2)
    by (simp add: exec_complete [OF assms(4,5)] rest_complete [OF assms(3)] assms(1) t)
qed

theorem complete_idempotent_witness:
  "execute_tool lower_ascii [] (intent ''completeTask'' (ascii ''  Buy Milk '')) two_milks =
     (Inr [(ascii ''ok'', PBool True), (ascii ''task'', task_json milk1)], two_milks) \<and>
   complete_task_by_description lower_ascii (Some (PDict (desc_body (ascii ''  Buy Milk '')))) two_milks =
     (Inr (task_json milk1, 200), two_milks)"
proof -
  have ne: "strip (ascii ''  Buy Milk '') \<noteq> []"
    by (simp add: strip_Buy_Milk)
  have c: "completed (tasks two_milks ! 0)"
    by (simp add: two_milks_def milk1_def)
  have z: "tasks two_milks ! 0 = milk1"
    by (simp add: two_milks_def)
  from complete_idempotent [where now = "[]", OF find_Buy_Milk c desc_body_description
      is_call_intent desc_body_description] ne
  show ?thesis by (simp add: z)
qed

text \<open>
  C5, as the code has it. A \<open>deleteTask\<close> call whose description matches a stored task
  removes the first match and returns \<open>{ok: true, deleted_description: d}\<close>, \<open>d\<close> being
  the trimmed input; the key is \<open>deleted_description\<close>.
\<close>

theorem delete_intent_result:
  assumes "is_call tool ''deleteTask'' ps"
    and "map_of ps (ascii ''description'') = Some (PStr d)"
    and "find_task_by_desc lower (tasks s) (Some d) = Some i"
  shows "execute_tool lower now tool s =
           (Inr [(ascii ''ok'', PBool True), (ascii ''deleted_description'', PStr (strip d))],
            s\<lparr>tasks := take i (tasks s) @ drop (Suc i) (tasks s)\<rparr>)"
  by (simp add: exec_delete [OF assms(1,2)] assms(3) find_task_by_desc_Some(4) [OF assms(3)])

theorem delete_intent_result_witness:
  "execute_tool lower_ascii [] (intent ''deleteTask'' (ascii ''  Buy Milk '')) two_milks =
     (Inr [(ascii ''ok'', PBool True), (ascii ''deleted_description'', PStr (ascii ''Buy Milk''))],
      \<lparr>tasks = [milk2], next_id = 3\<rparr>)"
proof -
  from delete_intent_result [where now = "[]", OF is_call_intent desc_body_description
      find_Buy_Milk]
  show ?thesis by (simp add: strip_Buy_Milk) (simp add: two_milks_def)
qed

text \<open>
  C5, as stated, at \<open>"Buy Milk"\<close> against the stored task \<open>"buy milk"\<close>: the result
  is not \<open>{ok: true, deletedDescription: "Buy Milk"}\<close>.
\<close>

theorem delete_intent_key_counterexample:
  "fst (execute_tool lower_ascii [] (intent ''deleteTask'' (ascii ''Buy Milk''))
          \<lparr>tasks = [milk1], next_id = 2\<rparr>) \<noteq>
     Inr [(ascii ''ok'', PBool True), (ascii ''deletedDescription'', PStr (ascii ''Buy Milk''))] \<and>
   execute_tool lower_ascii [] (intent ''deleteTask'' (ascii ''Buy Milk''))
          \<lparr>tasks = [milk1], next_id = 2\<rparr> =
     (Inr [(ascii ''ok'', PBool True), (ascii ''deleted_description'', PStr (ascii ''Buy Milk''))],
      \<lparr>tasks = [], next_id = 2\<rparr>)"
proof -
  have f: "find_task_by_desc lower_ascii [milk1] (Some (ascii ''Buy Milk'')) = Some 0"
    by (simp add: find_task_by_desc_def milk1_def lower_ascii_def
        ascii_def strip_def strip_chars_def is_space_def)
  have sp: "strip (ascii ''Buy Milk'') = ascii ''Buy Milk''"
    by (simp add: ascii_def strip_def strip_chars_def is_space_def)
  have "execute_tool lower_ascii [] (intent ''deleteTask'' (ascii ''Buy Milk''))
          \<lparr>tasks = [milk1], next_id = 2\<rparr> =
     (Inr [(ascii ''ok'', PBool True), (ascii ''deleted_description'', PStr (ascii ''Buy Milk''))],
      \<lparr>tasks = [], next_id = 2\<rparr>)"
    by (simp add: exec_delete [OF is_call_intent desc_body_description] f sp)
  then show ?thesis by simp
qed

text \<open>
  C1. When the provider answers, the router strips the code fences and parses. If the
  text parses to a JSON object whose \<open>function\<close> is one of \<open>addTask\<close>, \<open>completeTask\<close>,
  \<open>deleteTask\<close>, \<open>viewTasks\<close>, the result is \<open>{"mode": "tool", "tool": data}\<close> with the
  parsed object, whatever its \<open>parameters\<close> are; in every other case (the parser
  raises, the value is not an object, the name is missing, not a string or not one of
  the four) the result is \<open>{"mode": "text", "reply": content}\<close> with the fence-stripped
  content.
\<close>

theorem route_classification:
  assumes "client"
    and "chat msg = Returns raw"
    and "content = strip_fences (case raw of None \<Rightarrow> [] | Some x \<Rightarrow> x)"
  shows "(is_tool_intent (loads content) \<longrightarrow>
            (\<exists>data. loads content = Inr data \<and>
               llm_route loads client chat msg =
                 Some (PDict [(ascii ''mode'', PStr (ascii ''tool'')), (ascii ''tool'', data)]))) \<and>
         (\<not> is_tool_intent (loads content) \<longrightarrow>
            llm_route loads client chat msg =
              Some (PDict [(ascii ''mode'', PStr (ascii ''text'')), (ascii ''reply'', PStr content)]))"
  using route_classification_aux [where loads = loads and chat = chat and msg = msg, OF assms]
  by (simp add: tool_reply_def text_reply_def)

theorem route_classification_witness:
  "llm_route loads_view True (chat_says (ascii ''```json'' @ [10] @ view_json @ [10] @ ascii ''```'')) [] =
     Some (PDict [(ascii ''mode'', PStr (ascii ''tool'')),
                  (ascii ''tool'', PDict [(ascii ''function'', PStr (ascii ''viewTasks''))])]) \<and>
   llm_route loads_view True (chat_says (ascii ''Hello!'')) [] =
     Some (PDict [(ascii ''mode'', PStr (ascii ''text'')), (ascii ''reply'', PStr (ascii ''Hello!''))]) \<and>
   llm_route (loads_const (PDict [(ascii ''function'', PStr (ascii ''completeTask''))])) True
       (chat_says (ascii ''x'')) [] =
     Some (PDict [(ascii ''mode'', PStr (ascii ''tool'')),
                  (ascii ''tool'', PDict [(ascii ''function'', PStr (ascii ''completeTask''))])])"
proof -
  have c1: "view_json = strip_fences (case Some (ascii ''```json'' @ [10] @ view_json @ [10] @ ascii ''```'')
      of None \<Rightarrow> [] | Some x \<Rightarrow> x)"
    by (simp only: option.case strip_fences_view)
  have c2: "ascii ''Hello!'' = strip_fences (case Some (ascii ''Hello!'') of None \<Rightarrow> [] | Some x \<Rightarrow> x)"
    by (simp add: strip_fences_def strip_def strip_chars_def is_space_def ascii_def)
  have c3: "ascii ''x'' = strip_fences (case Some (ascii ''x'') of None \<Rightarrow> [] | Some x \<Rightarrow> x)"
    by (simp add: strip_fences_def strip_def strip_chars_def is_space_def ascii_def)
  have i1: "is_tool_intent (loads_view view_json)"
    by (simp add: loads_view_def)
  have i2: "\<not> is_tool_intent (loads_view (ascii ''Hello!''))"
    by (simp add: loads_view_def view_json_def)
  have i3: "is_tool_intent
      (loads_const (PDict [(ascii ''function'', PStr (ascii ''completeTask''))]) (ascii ''x''))"
    by (simp add: loads_const_def)
  have t: True by simp
  have r1: "chat_says (ascii ''```json'' @ [10] @ view_json @ [10] @ ascii ''```'') [] =
      Returns (Some (ascii ''```json'' @ [10] @ view_json @ [10] @ ascii ''```''))"
    by (simp only: chat_says_def)
  have r2: "chat_says (ascii ''Hello!'') [] = Returns (Some (ascii ''Hello!''))"
    by (simp only: chat_says_def)
  have r3: "chat_says (ascii ''x'') [] = Returns (Some (ascii ''x''))"
    by (simp only: chat_says_def)
  from route_classification [where loads = loads_view and client = True and msg = "[]"
      and chat = "chat_says (ascii ''```json'' @ [10] @ view_json @ [10] @ ascii ''```'')", OF t r1 c1]
    route_classification [where loads = loads_view and client = True and msg = "[]"
      and chat = "chat_says (ascii ''Hello!'')", OF t r2 c2]
    route_classification [where client = True and msg = "[]" and chat = "chat_says (ascii ''x'')"
      and loads = "loads_const (PDict [(ascii ''function'', PStr (ascii ''completeTask''))])",
      OF t r3 c3] i1 i2 i3
  show ?thesis
    by (simp add: loads_view_def loads_const_def)
qed

text \<open>
  C2, as the code has it. For a request without a JSON body, or whose body is an object
  with \<open>message\<close> absent, \<open>null\<close> or a string: when no client is configured or the call
  to the provider raises, the endpoint answers 200 with
  \<open>{mode: "text", reply: "Sorry, I can't do that."}\<close> and leaves the store alone.
\<close>

theorem llm_failure_absorbed:
  assumes "body = None \<or> body = Some (PDict kvs) \<and> str_field (map_of kvs (ascii ''message''))"
    and "\<not> client \<or> chat (message_text body) = Raises"
  shows "brain_execute lower loads client chat now body s = (Inr (sorry_reply, 200), s) \<and>
         http_status (fst (brain_execute lower loads client chat now body s)) = 200 \<and>
         sorry_reply = PDict [(ascii ''mode'', PStr (ascii ''text'')),
                              (ascii ''reply'', PStr (ascii ''Sorry, I can't do that.''))]"
proof -
  have "llm_route loads client chat (message_text body) = None"
    using assms(2) by (auto simp: llm_route_def)
  then show ?thesis
    by (simp add: brain_execute_def message_read [OF assms(1)] http_status_def sorry_reply_def
        text_reply_def)
qed

theorem llm_failure_absorbed_witness:
  "brain_execute lower_ascii loads_view True chat_down []
      (Some (PDict [(ascii ''message'', PStr (ascii ''hello''))])) init = (Inr (sorry_reply, 200), init) \<and>
   brain_execute lower_ascii loads_view False chat_down [] None init = (Inr (sorry_reply, 200), init)"
proof -
  have a: "Some (PDict [(ascii ''message'', PStr (ascii ''hello''))]) = None \<or>
      Some (PDict [(ascii ''message'', PStr (ascii ''hello''))]) =
        Some (PDict [(ascii ''message'', PStr (ascii ''hello''))]) \<and>
      str_field (map_of [(ascii ''message'', PStr (ascii ''hello''))] (ascii ''message''))"
    by simp
  have b: "\<not> True \<or> chat_down (message_text (Some (PDict [(ascii ''message'', PStr (ascii ''hello''))]))) = Raises"
    by (simp add: chat_down_def)
  have c: "None = None \<or> None = Some (PDict []) \<and> str_field (map_of [] (ascii ''message''))"
    by simp
  have d: "\<not> False \<or> chat_down (message_text None) = Raises"
    by simp
  from llm_failure_absorbed [where lower = lower_ascii and loads = loads_view and now = "[]"
      and s = init and client = True and chat = chat_down
      and body = "Some (PDict [(ascii ''message'', PStr (ascii ''hello''))])"
      and kvs = "[(ascii ''message'', PStr (ascii ''hello''))]", OF a b]
    llm_failure_absorbed [where lower = lower_ascii and loads = loads_view and now = "[]"
      and s = init and client = False and chat = chat_down and body = None and kvs = "[]", OF c d]
  show ?thesis by simp
qed

text \<open>
  C2, as stated for every request, at the body \<open>{"message": 5}\<close> with no client
  configured: \<open>(5).strip()\<close> raises \<open>AttributeError\<close> before the router is called, and
  the answer is a 500.
\<close>

theorem llm_failure_status_counterexample:
  "brain_execute lower_ascii loads_view False chat_down []
      (Some (PDict [(ascii ''message'', PInt 5)])) init = (Inl AttributeError, init) \<and>
   http_status (fst (brain_execute lower_ascii loads_view False chat_down []
      (Some (PDict [(ascii ''message'', PInt 5)])) init)) = 500"
  by (simp add: brain_execute_def body_or_empty_def py_or_def get_stripped_def http_status_def)

text \<open>
  C3. From the initial store, after any sequence of requests, the ids assigned so far
  are \<open>1, 2, ..., next_id - 1\<close> in this order: strictly increasing and pairwise
  distinct, whatever was deleted in between. The ids of the stored tasks are a
  subsequence of them. Both creation paths give the new task the current counter as
  its id, append it and advance the counter by one.
\<close>

theorem ids_never_reused:
  "(let s = run lower loads client reqs init;
        log = assigned lower loads client reqs init
    in log = [1 .. next_id s - 1] \<and> sorted_wrt (<) log \<and> distinct log \<and>
       subseq (map task_id (tasks s)) log \<and>
       sorted_wrt (<) (map task_id (tasks s)) \<and> distinct (map task_id (tasks s))) \<and>
   (map_of kvs (ascii ''description'') = Some (PStr d) \<and> strip d \<noteq> [] \<longrightarrow>
      create_task now (Some (PDict kvs)) s0 =
        (Inr (task_json \<lparr>task_id = next_id s0, description = strip d, completed = False,
                created_at = now\<rparr>, 201),
         s0\<lparr>tasks := tasks s0 @ [\<lparr>task_id = next_id s0, description = strip d,
                completed = False, created_at = now\<rparr>],
            next_id := next_id s0 + 1\<rparr>)) \<and>
   (is_call tool ''addTask'' ps \<and> map_of ps (ascii ''description'') = Some (PStr d) \<and>
    strip d \<noteq> [] \<longrightarrow>
      execute_tool lower now tool s0 =
        (Inr [(ascii ''ok'', PBool True),
              (ascii ''task'', task_json \<lparr>task_id = next_id s0, description = strip d,
                 completed = False, created_at = now\<rparr>)],
         s0\<lparr>tasks := tasks s0 @ [\<lparr>task_id = next_id s0, description = strip d,
                completed = False, created_at = now\<rparr>],
            next_id := next_id s0 + 1\<rparr>))"
proof -
  let ?s = "run lower loads client reqs init"
  let ?log = "assigned lower loads client reqs init"
  have l: "?log = [1 .. next_id ?s - 1]"
    using assigned_upto [of lower loads client reqs init] by (simp add: init_def)
  have sub: "subseq (map task_id (tasks ?s)) ?log"
    using run_ids [of lower loads client reqs init] by (simp add: init_def)
  have so: "sorted_wrt (<) ?log" and di: "distinct ?log"
    by (simp_all add: l)
  have so': "sorted_wrt (<) (map task_id (tasks ?s))"
    using sub so by (rule sorted_wrt_subseq)
  then have di': "distinct (map task_id (tasks ?s))"
    by (simp add: strict_sorted_iff)
  have run_part: "let s = ?s; log = ?log
    in log = [1 .. next_id s - 1] \<and> sorted_wrt (<) log \<and> distinct log \<and>
       subseq (map task_id (tasks s)) log \<and>
       sorted_wrt (<) (map task_id (tasks s)) \<and> distinct (map task_id (tasks s))"
    using l sub so di so' di' by (simp only: Let_def)
  have c: "map_of kvs (ascii ''description'') = Some (PStr d) \<and> strip d \<noteq> [] \<longrightarrow>
      create_task now (Some (PDict kvs)) s0 =
        (Inr (task_json \<lparr>task_id = next_id s0, description = strip d, completed = False,
                created_at = now\<rparr>, 201),
         s0\<lparr>tasks := tasks s0 @ [\<lparr>task_id = next_id s0, description = strip d,
                completed = False, created_at = now\<rparr>],
            next_id := next_id s0 + 1\<rparr>)"
    using create_task_str [of kvs d now s0] by blast
  have e: "is_call tool ''addTask'' ps \<and> map_of ps (ascii ''description'') = Some (PStr d) \<and>
    strip d \<noteq> [] \<longrightarrow>
      execute_tool lower now tool s0 =
        (Inr [(ascii ''ok'', PBool True),
              (ascii ''task'', task_json \<lparr>task_id = next_id s0, description = strip d,
                 completed = False, created_at = now\<rparr>)],
         s0\<lparr>tasks := tasks s0 @ [\<lparr>task_id = next_id s0, description = strip d,
                completed = False, created_at = now\<rparr>],
            next_id := next_id s0 + 1\<rparr>)"
    by (auto simp add: execute_tool_add get_stripped_str)
  show ?thesis
    by (rule conjI [OF run_part conjI [OF c e]])
qed

theorem ids_never_reused_witness:
  "assigned lower_ascii loads_view False three_requests init = [1, 2] \<and>
   map task_id (tasks (run lower_ascii loads_view False three_requests init)) = [2] \<and>
   snd (create_task [] (Some (PDict (desc_body (ascii ''a'')))) init) =
     \<lparr>tasks = [\<lparr>task_id = 1, description = ascii ''a'', completed = False, created_at = []\<rparr>],
      next_id = 2\<rparr> \<and>
   snd (execute_tool lower_ascii [] (intent ''addTask'' (ascii ''a'')) init) =
     \<lparr>tasks = [\<lparr>task_id = 1, description = ascii ''a'', completed = False, created_at = []\<rparr>],
      next_id = 2\<rparr>"
proof -
  have ne: "strip (ascii ''a'') \<noteq> []"
    by (simp add: strip_a)
  have u: "[1 .. (2::int)] = [1, 2]"
    by (simp add: upto_rec1)
  from ids_never_reused [where lower = lower_ascii and loads = loads_view and client = False
      and reqs = three_requests and kvs = "desc_body (ascii ''a'')" and d = "ascii ''a''"
      and now = "[]" and ?s0.0 = init and tool = "intent ''addTask'' (ascii ''a'')"
      and ps = "desc_body (ascii ''a'')"] ne
  show ?thesis
    by (simp add: run_three_requests u strip_a Let_def) (simp add: init_def)
qed

text \<open>
  C10, as the code has it. In every store reachable from the initial one, no stored
  task has an empty normalized description; so a \<open>completeTask\<close> or \<open>deleteTask\<close> call
  whose \<open>parameters\<close> are absent or a JSON object, and whose description is absent,
  \<open>null\<close> or whitespace-only, looks up the empty string, finds nothing and returns
  \<open>{error: "not found"}\<close>, the store unchanged. Of \<open>lower\<close> the proof uses that it maps
  the empty string, and no other, to the empty string.
\<close>

theorem blank_lookup_not_found:
  assumes "\<forall>x. lower x = [] \<longleftrightarrow> x = []"
    and "is_call ctool ''completeTask'' ps"
    and "is_call dtool ''deleteTask'' ps"
    and "blank (map_of ps (ascii ''description''))"
  shows "let s = run lower loads client reqs init
         in (\<forall>t\<in>set (tasks s). lower (strip (description t)) \<noteq> []) \<and>
            execute_tool lower now ctool s = (Inr [(ascii ''error'', PStr (ascii ''not found''))], s) \<and>
            execute_tool lower now dtool s = (Inr [(ascii ''error'', PStr (ascii ''not found''))], s)"
proof -
  let ?s = "run lower loads client reqs init"
  have "\<forall>t\<in>set (tasks init). strip (description t) \<noteq> []"
    by (simp add: init_def)
  then have "\<forall>t\<in>set (tasks ?s). strip (description t) \<noteq> []"
    by (rule run_no_blank)
  with assms(1) have nb: "\<forall>t\<in>set (tasks ?s). lower (strip (description t)) \<noteq> []"
    by simp
  have l0: "lower [] = []"
    using assms(1) by simp
  have "find_task_by_desc lower (tasks ?s) (Some []) = None"
    using nb by (simp add: find_task_by_desc_None l0)
  then have "execute_tool lower now ctool ?s = (Inr [(ascii ''error'', PStr (ascii ''not found''))], ?s)"
    and "execute_tool lower now dtool ?s = (Inr [(ascii ''error'', PStr (ascii ''not found''))], ?s)"
    by (simp_all add: execute_tool_complete [OF assms(2)] execute_tool_delete [OF assms(3)]
        get_stripped_blank [OF assms(4)])
  with nb show ?thesis
    by (simp only: Let_def simp_thms)
qed

theorem blank_lookup_not_found_witness:
  "execute_tool lower_ascii [] (intent ''completeTask'' (ascii '' ''))
       (run lower_ascii loads_view False three_requests init) =
     (Inr [(ascii ''error'', PStr (ascii ''not found''))],
      run lower_ascii loads_view False three_requests init) \<and>
   execute_tool lower_ascii [] (intent ''deleteTask'' (ascii '' ''))
       (run lower_ascii loads_view False three_requests init) =
     (Inr [(ascii ''error'', PStr (ascii ''not found''))],
      run lower_ascii loads_view False three_requests init)"
proof -
  have l: "\<forall>x. lower_ascii x = [] \<longleftrightarrow> x = []"
    by (simp add: lower_ascii_def)
  have sp: "strip (ascii '' '') = []"
    by (simp add: ascii_def strip_def strip_chars_def is_space_def)
  have b: "blank (map_of (desc_body (ascii '' '')) (ascii ''description''))"
    by (simp add: sp)
  from blank_lookup_not_found [where loads = loads_view and client = False
      and reqs = three_requests and now = "[]", OF l is_call_intent is_call_intent b]
  show ?thesis
    by (simp only: Let_def)
qed

text \<open>
  C10, as stated for every call without a description, at
  \<open>{"function": "completeTask", "parameters": null}\<close> and the same for \<open>deleteTask\<close>:
  \<open>p\<close> is \<open>None\<close>, \<open>p.get\<close> raises \<open>AttributeError\<close>, and the executor returns no
  \<open>{error: "not found"}\<close>.
\<close>

theorem blank_lookup_raises_counterexample:
  "execute_tool lower_ascii []
       (PDict [(ascii ''function'', PStr (ascii ''completeTask'')), (ascii ''parameters'', PNone)])
       init = (Inl AttributeError, init) \<and>
   execute_tool lower_ascii []
       (PDict [(ascii ''function'', PStr (ascii ''deleteTask'')), (ascii ''parameters'', PNone)])
       init = (Inl AttributeError, init)"
  by (simp add: execute_tool_def get_stripped_def)

text \<open>
  C8. When the router returned a tool intent and the executor returned a result, the
  endpoint answers 200 with \<open>{mode: "tool", tool, result, reply}\<close>, where \<open>reply\<close> is
  \<^item> for \<open>viewTasks\<close>: \<open>You have N task(s).\<close>, \<open>N\<close> the number of stored tasks;
  \<^item> for a result without \<open>ok\<close>: \<open>OK\<close>;
  \<^item> for a result with \<open>ok: true\<close> of \<open>addTask\<close>, \<open>completeTask\<close>, \<open>deleteTask\<close> with
    description parameter \<open>d\<close>: \<open>Added "d".\<close>, \<open>Marked "d" as done.\<close>, \<open>Deleted "d".\<close>,
    the quotes being U+201C and U+201D and \<open>d\<close> the parameter as sent, untrimmed.
  A result of the executor either has no \<open>ok\<close> or has \<open>ok: true\<close>.
\<close>

theorem reply_synthesis:
  assumes "body = None \<or> body = Some (PDict kvs) \<and> str_field (map_of kvs (ascii ''message''))"
    and "llm_route loads client chat (message_text body) =
           Some (PDict [(ascii ''mode'', PStr (ascii ''tool'')), (ascii ''tool'', tool)])"
    and "execute_tool lower now tool s = (Inr result, s')"
  shows "(has_function tool ''viewTasks'' \<longrightarrow>
            brain_execute lower loads client chat now body s =
              (Inr (PDict [(ascii ''mode'', PStr (ascii ''tool'')), (ascii ''tool'', tool),
                           (ascii ''result'', PDict result),
                           (ascii ''reply'', PStr (ascii ''You have '' @
                              str_int (int (length (tasks s'))) @ ascii '' task(s).''))],
                 200), s')) \<and>
         (map_of result (ascii ''ok'') = None \<longrightarrow>
            brain_execute lower loads client chat now body s =
              (Inr (PDict [(ascii ''mode'', PStr (ascii ''tool'')), (ascii ''tool'', tool),
                           (ascii ''result'', PDict result),
                           (ascii ''reply'', PStr (ascii ''OK''))], 200), s')) \<and>
         (map_of result (ascii ''ok'') = Some (PBool True) \<and> is_call tool ''addTask'' ps \<and>
          map_of ps (ascii ''description'') = Some (PStr d) \<longrightarrow>
            brain_execute lower loads client chat now body s =
              (Inr (PDict [(ascii ''mode'', PStr (ascii ''tool'')), (ascii ''tool'', tool),
                           (ascii ''result'', PDict result),
                           (ascii ''reply'', PStr (ascii ''Added '' @ [8220] @ d @ [8221] @
                              ascii ''.''))], 200), s')) \<and>
         (map_of result (ascii ''ok'') = Some (PBool True) \<and> is_call tool ''completeTask'' ps \<and>
          map_of ps (ascii ''description'') = Some (PStr d) \<longrightarrow>
            brain_execute lower loads client chat now body s =
              (Inr (PDict [(ascii ''mode'', PStr (ascii ''tool'')), (ascii ''tool'', tool),
                           (ascii ''result'', PDict result),
                           (ascii ''reply'', PStr (ascii ''Marked '' @ [8220] @ d @ [8221] @
                              ascii '' as done.''))], 200), s')) \<and>
         (map_of result (ascii ''ok'') = Some (PBool True) \<and> is_call tool ''deleteTask'' ps \<and>
          map_of ps (ascii ''description'') = Some (PStr d) \<longrightarrow>
            brain_execute lower loads client chat now body s =
              (Inr (PDict [(ascii ''mode'', PStr (ascii ''tool'')), (ascii ''tool'', tool),
                           (ascii ''result'', PDict result),
                           (ascii ''reply'', PStr (ascii ''Deleted '' @ [8220] @ d @ [8221] @
                              ascii ''.''))], 200), s')) \<and>
         (map_of result (ascii ''ok'') = None \<or> map_of result (ascii ''ok'') = Some (PBool True))"
proof -
  have r: "llm_route loads client chat (message_text body) = Some (tool_reply tool)"
    using assms(2) by (simp add: tool_reply_def)
  note a = reply_synthesis_aux [where ps = ps and d = d, OF assms(1) r assms(3),
      unfolded tool_answer_def]
  have n: "map_of result (ascii ''ok'') = None \<Longrightarrow> \<not> result_ok result"
    by (simp add: result_ok_def)
  have y: "map_of result (ascii ''ok'') = Some (PBool True) \<Longrightarrow> result_ok result"
    by (simp add: result_ok_def)
  have ex: "map_of result (ascii ''ok'') = None \<or> map_of result (ascii ''ok'') = Some (PBool True)"
    by (rule execute_tool_ok_cases [OF assms(3)])
  from a have v: "has_function tool ''viewTasks'' \<longrightarrow>
            brain_execute lower loads client chat now body s =
              (Inr (PDict [(ascii ''mode'', PStr (ascii ''tool'')), (ascii ''tool'', tool),
                           (ascii ''result'', PDict result),
                           (ascii ''reply'', PStr (ascii ''You have '' @
                              str_int (int (length (tasks s'))) @ ascii '' task(s).''))],
                 200), s')"
    by (rule conjunct1)
  from a n have f: "map_of result (ascii ''ok'') = None \<longrightarrow>
            brain_execute lower loads client chat now body s =
              (Inr (PDict [(ascii ''mode'', PStr (ascii ''tool'')), (ascii ''tool'', tool),
                           (ascii ''result'', PDict result),
                           (ascii ''reply'', PStr (ascii ''OK''))], 200), s')"
    by blast
  from a y have ad: "map_of result (ascii ''ok'') = Some (PBool True) \<and> is_call tool ''addTask'' ps \<and>
          map_of ps (ascii ''description'') = Some (PStr d) \<longrightarrow>
            brain_execute lower loads client chat now body s =
              (Inr (PDict [(ascii ''mode'', PStr (ascii ''tool'')), (ascii ''tool'', tool),
                           (ascii ''result'', PDict result),
                           (ascii ''reply'', PStr (ascii ''Added '' @ [8220] @ d @ [8221] @
                              ascii ''.''))], 200), s')"
    by blast
  from a y have co: "map_of result (ascii ''ok'') = Some (PBool True) \<and> is_call tool ''completeTask'' ps \<and>
          map_of ps (ascii ''description'') = Some (PStr d) \<longrightarrow>
            brain_execute lower loads client chat now body s =
              (Inr (PDict [(ascii ''mode'', PStr (ascii ''tool'')), (ascii ''tool'', tool),
                           (ascii ''result'', PDict result),
                           (ascii ''reply'', PStr (ascii ''Marked '' @ [8220] @ d @ [8221] @
                              ascii '' as done.''))], 200), s')"
    by blast
  from a y have de: "map_of result (ascii ''ok'') = Some (PBool True) \<and> is_call tool ''deleteTask'' ps \<and>
          map_of ps (ascii ''description'') = Some (PStr d) \<longrightarrow>
            brain_execute lower loads client chat now body s =
              (Inr (PDict [(ascii ''mode'', PStr (ascii ''tool'')), (ascii ''tool'', tool),
                           (ascii ''result'', PDict result),
                           (ascii ''reply'', PStr (ascii ''Deleted '' @ [8220] @ d @ [8221] @
                              ascii ''.''))], 200), s')"
    by blast
  show ?thesis
    by (rule conjI [OF v conjI [OF f conjI [OF ad conjI [OF co conjI [OF de ex]]]]])
qed

theorem reply_synthesis_witness:
  "brain_execute lower_ascii (loads_const (PDict [(ascii ''function'', PStr (ascii ''viewTasks''))]))
      True (chat_says []) [] None two_milks =
     (Inr (PDict [(ascii ''mode'', PStr (ascii ''tool'')),
                  (ascii ''tool'', PDict [(ascii ''function'', PStr (ascii ''viewTasks''))]),
                  (ascii ''result'', PDict [(ascii ''ok'', PBool True),
                     (ascii ''tasks'', PList [task_json milk1, task_json milk2])]),
                  (ascii ''reply'', PStr (ascii ''You have 2 task(s).''))], 200), two_milks) \<and>
   brain_execute lower_ascii (loads_const (intent ''addTask'' (ascii ''Water plants'')))
      True (chat_says []) (ascii ''t1'') None init =
     (Inr (PDict [(ascii ''mode'', PStr (ascii ''tool'')),
                  (ascii ''tool'', intent ''addTask'' (ascii ''Water plants'')),
                  (ascii ''result'', PDict [(ascii ''ok'', PBool True),
                     (ascii ''task'', task_json \<lparr>task_id = 1, description = ascii ''Water plants'',
                        completed = False, created_at = ascii ''t1''\<rparr>)]),
                  (ascii ''reply'', PStr (ascii ''Added '' @ [8220] @ ascii ''Water plants'' @
                     [8221] @ ascii ''.''))], 200),
      \<lparr>tasks = [\<lparr>task_id = 1, description = ascii ''Water plants'', completed = False,
                 created_at = ascii ''t1''\<rparr>], next_id = 2\<rparr>) \<and>
   brain_execute lower_ascii (loads_const (intent ''deleteTask'' (ascii ''x'')))
      True (chat_says []) [] None init =
     (Inr (PDict [(ascii ''mode'', PStr (ascii ''tool'')),
                  (ascii ''tool'', intent ''deleteTask'' (ascii ''x'')),
                  (ascii ''result'', PDict [(ascii ''error'', PStr (ascii ''not found''))]),
                  (ascii ''reply'', PStr (ascii ''OK''))], 200), init)"
proof -
  have body: "None = None \<or> None = Some (PDict []) \<and> str_field (map_of [] (ascii ''message''))"
    by simp
  let ?view = "PDict [(ascii ''function'', PStr (ascii ''viewTasks''))]"
  have rv: "llm_route (loads_const ?view) True (chat_says []) (message_text None) =
      Some (PDict [(ascii ''mode'', PStr (ascii ''tool'')), (ascii ''tool'', ?view)])"
    using llm_route_const [of ?view "[]" "message_text None"]
    by (simp add: tool_reply_def)
  have ev: "execute_tool lower_ascii [] ?view two_milks =
      (Inr [(ascii ''ok'', PBool True), (ascii ''tasks'', PList [task_json milk1, task_json milk2])],
       two_milks)"
    by (simp add: has_function_view_exec two_milks_def)
  have hv: "has_function ?view ''viewTasks''"
    by simp
  have two: "str_int (int (length (tasks two_milks))) = ascii ''2''"
    by (simp add: two_milks_def str_int_def digits.simps ascii_def)
  have ra: "llm_route (loads_const (intent ''addTask'' (ascii ''Water plants''))) True (chat_says [])
      (message_text None) =
      Some (PDict [(ascii ''mode'', PStr (ascii ''tool'')),
                   (ascii ''tool'', intent ''addTask'' (ascii ''Water plants''))])"
    using llm_route_const [of "intent ''addTask'' (ascii ''Water plants'')" "[]" "message_text None"]
    by (simp add: tool_reply_def tool_names_def)
  have sw: "strip (ascii ''Water plants'') = ascii ''Water plants''"
    by (simp add: ascii_def strip_def strip_chars_def is_space_def)
  have ea: "execute_tool lower_ascii (ascii ''t1'') (intent ''addTask'' (ascii ''Water plants'')) init =
      (Inr [(ascii ''ok'', PBool True),
            (ascii ''task'', task_json \<lparr>task_id = 1, description = ascii ''Water plants'',
               completed = False, created_at = ascii ''t1''\<rparr>)],
       \<lparr>tasks = [\<lparr>task_id = 1, description = ascii ''Water plants'', completed = False,
                 created_at = ascii ''t1''\<rparr>], next_id = 2\<rparr>)"
    by (simp add: execute_tool_add [OF is_call_intent] get_stripped_str sw init_def)
  have oka: "map_of [(ascii ''ok'', PBool True),
            (ascii ''task'', task_json \<lparr>task_id = 1, description = ascii ''Water plants'',
               completed = False, created_at = ascii ''t1''\<rparr>)] (ascii ''ok'') = Some (PBool True)"
    by simp
  have rd: "llm_route (loads_const (intent ''deleteTask'' (ascii ''x''))) True (chat_says [])
      (message_text None) =
      Some (PDict [(ascii ''mode'', PStr (ascii ''tool'')),
                   (ascii ''tool'', intent ''deleteTask'' (ascii ''x''))])"
    using llm_route_const [of "intent ''deleteTask'' (ascii ''x'')" "[]" "message_text None"]
    by (simp add: tool_reply_def tool_names_def)
  have ed: "execute_tool lower_ascii [] (intent ''deleteTask'' (ascii ''x'')) init =
      (Inr [(ascii ''error'', PStr (ascii ''not found''))], init)"
    by (simp add: exec_delete [OF is_call_intent desc_body_description] find_task_by_desc_def
        init_def)
  have nd: "map_of [(ascii ''error'', PStr (ascii ''not found''))] (ascii ''ok'') = None"
    by simp
  from reply_synthesis [where kvs = "[]" and ps = "[]" and d = "[]", OF body rv ev] hv
  have 1: "brain_execute lower_ascii (loads_const ?view) True (chat_says []) [] None two_milks =
     (Inr (PDict [(ascii ''mode'', PStr (ascii ''tool'')), (ascii ''tool'', ?view),
                  (ascii ''result'', PDict [(ascii ''ok'', PBool True),
                     (ascii ''tasks'', PList [task_json milk1, task_json milk2])]),
                  (ascii ''reply'', PStr (ascii ''You have '' @
                     str_int (int (length (tasks two_milks))) @ ascii '' task(s).''))], 200),
      two_milks)"
    by blast
  from reply_synthesis [where kvs = "[]" and ps = "desc_body (ascii ''Water plants'')"
      and d = "ascii ''Water plants''", OF body ra ea] oka
  have 2: "brain_execute lower_ascii (loads_const (intent ''addTask'' (ascii ''Water plants'')))
      True (chat_says []) (ascii ''t1'') None init =
     (Inr (PDict [(ascii ''mode'', PStr (ascii ''tool'')),
                  (ascii ''tool'', intent ''addTask'' (ascii ''Water plants'')),
                  (ascii ''result'', PDict [(ascii ''ok'', PBool True),
                     (ascii ''task'', task_json \<lparr>task_id = 1, description = ascii ''Water plants'',
                        completed = False, created_at = ascii ''t1''\<rparr>)]),
                  (ascii ''reply'', PStr (ascii ''Added '' @ [8220] @ ascii ''Water plants'' @
                     [8221] @ ascii ''.''))], 200),
      \<lparr>tasks = [\<lparr>task_id = 1, description = ascii ''Water plants'', completed = False,
                 created_at = ascii ''t1''\<rparr>], next_id = 2\<rparr>)"
    using is_call_intent [of "''addTask''" "ascii ''Water plants''"]
      desc_body_description [of "ascii ''Water plants''"] by blast
  from reply_synthesis [where kvs = "[]" and ps = "[]" and d = "[]", OF body rd ed] nd
  have 3: "brain_execute lower_ascii (loads_const (intent ''deleteTask'' (ascii ''x'')))
      True (chat_says []) [] None init =
     (Inr (PDict [(ascii ''mode'', PStr (ascii ''tool'')),
                  (ascii ''tool'', intent ''deleteTask'' (ascii ''x'')),
                  (ascii ''result'', PDict [(ascii ''error'', PStr (ascii ''not found''))]),
                  (ascii ''reply'', PStr (ascii ''OK''))], 200), init)"
    by blast
  have c: "ascii ''You have '' @ ascii ''2'' @ ascii '' task(s).'' = ascii ''You have 2 task(s).''"
    by (simp add: ascii_def)
  show ?thesis
    by (simp only: 1 2 3 two c simp_thms)
qed

end
